theory Spec2Isabelle
  imports Main
begin

text \<open>
  The reactive cells of \<^verbatim>\<open>src/dynx.js\<close> (the variant with typed lifecycle states) and the
  conditional combinator of \<^verbatim>\<open>src/DynxTransform.js\<close>, as functions on an explicit state:
  the heap of cells, the update handles with their \<^verbatim>\<open>obsolete\<close> flag, the evaluation stack
  and the dispatch queues. What the caller supplies is modelled as data: an expression
  function is a term of \<open>expr\<close> (it reads cells, branches, throws), a filter is a function
  from a value to a value or an exception, a listener of the caller is a callback that
  writes its tag to a log. \<^verbatim>\<open>update\<close> calls listeners that call \<^verbatim>\<open>update\<close>, without bound
  when cells depend on one another in a cycle, so it takes fuel.
\<close>

section \<open>Values, lifecycle types and function objects\<close>

text \<open>
  The JavaScript values a cell can hold. \<open>Sym\<close> is a symbol, named by its description.
\<close>

datatype val = Undefined | Bool bool | Num int | Str string | Sym string

text \<open>The symbol \<^verbatim>\<open>INVALID = Symbol('invalid')\<close> exported by \<^verbatim>\<open>src/src/dynx.js\<close>.\<close>

definition INVALID_sentinel :: val where
  "INVALID_sentinel = Sym ''invalid''"

text \<open>JavaScript truthiness, as used by \<^verbatim>\<open>cond ? a : b\<close> and \<^verbatim>\<open>Boolean(x)\<close>.\<close>

fun truthy :: "val \<Rightarrow> bool" where
  "truthy Undefined = False"
| "truthy (Bool b) = b"
| "truthy (Num n) = (n \<noteq> 0)"
| "truthy (Str s) = (s \<noteq> [])"
| "truthy (Sym s) = True"

text \<open>\<^verbatim>\<open>DynxType\<close> of \<^verbatim>\<open>src/dynx.js\<close>: an enum of numbers, larger trumps smaller.\<close>

datatype DynxType = STATIC | DYNAMIC | INVALID | INHERIT

fun type_num :: "DynxType \<Rightarrow> nat" where
  "type_num STATIC = 0"
| "type_num DYNAMIC = 1"
| "type_num INVALID = 2"
| "type_num INHERIT = 3"

text \<open>
  What the fields \<^verbatim>\<open>this[TYPE]\<close> and \<^verbatim>\<open>this.pendingType\<close> can hold: a type, nothing
  (\<^verbatim>\<open>undefined\<close>, also after \<^verbatim>\<open>delete\<close>), or the \<^verbatim>\<open>NaN\<close> that \<^verbatim>\<open>Math.max\<close> returns
  when an argument is \<^verbatim>\<open>undefined\<close>.
\<close>

datatype tyval = TUndefined | TNaN | T DynxType

fun js_max :: "tyval \<Rightarrow> tyval \<Rightarrow> tyval" where
  "js_max (T a) (T b) = (if type_num b \<le> type_num a then T a else T b)"
| "js_max _ _ = TNaN"

text \<open>\<^verbatim>\<open>a !== b\<close> on these: \<^verbatim>\<open>NaN\<close> differs from itself.\<close>

definition strict_neq :: "tyval \<Rightarrow> tyval \<Rightarrow> bool" where
  "strict_neq a b = (a = TNaN \<or> a \<noteq> b)"

text \<open>
  What JavaScript throws: \<^verbatim>\<open>new Error(message)\<close> from the library or from a user function,
  and the \<^verbatim>\<open>TypeError\<close> of a property read or a call on \<^verbatim>\<open>undefined\<close>.
\<close>

datatype error = Error string | TypeError

definition static_type_error :: error where
  "static_type_error = Error ''[Dynx] Cannot modify a static Dynx.''"

definition static_value_error :: error where
  "static_value_error = Error ''[Dynx] Cannot change the value of a static Dynx.''"

definition immune_error :: error where
  "immune_error = Error ''[Dynx] SEVERE: Immune statements can only be executed immediately within a variable's expression function.''"

definition static_warning :: string where
  "static_warning = ''[Dynx] Subscription to a STATIC is unnecessary!''"

text \<open>
  The errors thrown on an attempt to modify a \<open>STATIC\<close> cell (the specification's
  \<open>FrozenMutationError\<close>).
\<close>

definition FrozenMutationError :: "error \<Rightarrow> bool" where
  "FrozenMutationError e = (e = static_type_error \<or> e = static_value_error)"

text \<open>
  Listener functions. \<open>Handle h\<close> is the update handle \<^verbatim>\<open>() => this.update()\<close> with
  identity \<open>h\<close>; \<open>User t\<close> is a callback of the caller, which appends \<open>t\<close> to a log when it
  runs; \<open>NotAFunction\<close> is \<^verbatim>\<open>undefined\<close> stored where a function is expected.
\<close>

datatype listener = Handle nat | User string | NotAFunction

text \<open>
  A filter is a function object with an identity and a body from a value to a value,
  which can throw.
\<close>

datatype filter_fn = FilterFn nat "val \<Rightarrow> error + val"

fun filter_id :: "filter_fn \<Rightarrow> nat" where
  "filter_id (FilterFn i f) = i"

fun filter_body :: "filter_fn \<Rightarrow> val \<Rightarrow> error + val" where
  "filter_body (FilterFn i f) = f"

text \<open>
  Expression functions, as a small language: a constant, \<^verbatim>\<open>c.value\<close>, a conditional on
  truthiness, \<^verbatim>\<open>throw\<close>, \<^verbatim>\<open>this.executeImmune(() => e)\<close>, and the expression that
  \<^verbatim>\<open>createBasicCond\<close> installs over a parent cell.
\<close>

datatype expr =
    Const val
  | Read nat
  | Cond expr expr expr
  | Throw error
  | Immune expr
  | CondExp nat

section \<open>Cells and the global state\<close>

text \<open>The variables \<^verbatim>\<open>parentDynx, _ifThens, _elseThen\<close> captured by one call of \<^verbatim>\<open>createBasicCond\<close>.\<close>

record cond_closure =
  c_parent :: nat
  c_ifThens :: nat
  c_elseThen :: val

record cell =
  TYPE' :: tyval
  VALUE :: val
  EXP :: "expr option"
  pendingType :: tyval
  updateHandle :: "nat option"
  preupdates :: "listener list option"
  updates :: "listener list option"
  postupdates :: "listener list option"
  typeChanges :: "listener list option"
  filters :: "filter_fn list option"
  ifThens :: "nat option"
  elseThen :: val
  cond_env :: "cond_closure option"

record handle =
  owner :: nat
  obsolete :: bool

datatype group = Preupdates | Updates | Postupdates | TypeChanges

text \<open>
  The heap of cells, of update handles and of \<^verbatim>\<open>_ifThens\<close> arrays (all by reference),
  the evaluation stack \<^verbatim>\<open>Dynx.childStack\<close> (\<open>None\<close> is \<^verbatim>\<open>undefined\<close>), the dispatch queues
  \<^verbatim>\<open>Dynx[name + 'Queue']\<close> and flags \<^verbatim>\<open>Dynx[name + 'InProgress']\<close>, the log of the user
  callbacks and the console.
\<close>

record state =
  cells :: "nat \<Rightarrow> cell"
  next_cell :: nat
  handles :: "nat \<Rightarrow> handle"
  next_handle :: nat
  arrays :: "nat \<Rightarrow> ((val \<Rightarrow> bool) \<times> val) list"
  next_array :: nat
  childStack :: "nat option list"
  queue :: "group \<Rightarrow> listener list option"
  inProgress :: "group \<Rightarrow> bool"
  log :: "string list"
  console :: "string list"

definition empty_cell :: cell where
  "empty_cell = \<lparr>TYPE' = TUndefined, VALUE = Undefined, EXP = None, pendingType = TUndefined,
     updateHandle = None, preupdates = None, updates = None, postupdates = None,
     typeChanges = None, filters = None, ifThens = None, elseThen = Undefined,
     cond_env = None\<rparr>"

definition init_state :: state where
  "init_state = \<lparr>cells = (\<lambda>_. empty_cell), next_cell = 0,
     handles = (\<lambda>_. \<lparr>owner = 0, obsolete = False\<rparr>), next_handle = 0,
     arrays = (\<lambda>_. []), next_array = 0, childStack = [],
     queue = (\<lambda>_. None), inProgress = (\<lambda>_. False), log = [], console = []\<rparr>"

text \<open>
  The result of running a piece of the program: it returns, it throws (the state reached
  is kept, nothing is rolled back), or the fuel ran out.
\<close>

datatype 'a outcome = Normal 'a state | Threw error state | OutOfFuel

definition bind :: "'a outcome \<Rightarrow> ('a \<Rightarrow> state \<Rightarrow> 'b outcome) \<Rightarrow> 'b outcome" where
  "bind m f = (case m of Normal a s \<Rightarrow> f a s | Threw e s \<Rightarrow> Threw e s | OutOfFuel \<Rightarrow> OutOfFuel)"

definition upd_cell :: "nat \<Rightarrow> (cell \<Rightarrow> cell) \<Rightarrow> state \<Rightarrow> state" where
  "upd_cell c f s = s\<lparr>cells := (cells s)(c := f (cells s c))\<rparr>"

fun get_group :: "group \<Rightarrow> cell \<Rightarrow> listener list option" where
  "get_group Preupdates d = preupdates d"
| "get_group Updates d = updates d"
| "get_group Postupdates d = postupdates d"
| "get_group TypeChanges d = typeChanges d"

fun set_group :: "group \<Rightarrow> listener list option \<Rightarrow> cell \<Rightarrow> cell" where
  "set_group Preupdates x d = d\<lparr>preupdates := x\<rparr>"
| "set_group Updates x d = d\<lparr>updates := x\<rparr>"
| "set_group Postupdates x d = d\<lparr>postupdates := x\<rparr>"
| "set_group TypeChanges x d = d\<lparr>typeChanges := x\<rparr>"

section \<open>src/dynx.js\<close>

text \<open>
  \<^verbatim>\<open>constructor(initial=undefined, type=DynxType.DYNAMIC)\<close> (lines 70-73): returns the new
  reference.
\<close>

definition new_Dynx :: "val \<Rightarrow> DynxType \<Rightarrow> state \<Rightarrow> nat \<times> state" where
  "new_Dynx initial ty s =
     (next_cell s,
      s\<lparr>cells := (cells s)(next_cell s := empty_cell\<lparr>VALUE := initial, TYPE' := T ty\<rparr>),
        next_cell := Suc (next_cell s)\<rparr>)"

text \<open>
  \<^verbatim>\<open>[ADD_LiSTENER](group, func, first)\<close> (lines 303-312): warns on a \<open>STATIC\<close> cell and
  adds all the same. \<open>add_filter\<close> is the same method on the group \<^verbatim>\<open>'filters'\<close>.
\<close>

definition warn_static :: "nat \<Rightarrow> state \<Rightarrow> state" where
  "warn_static c s =
     (if TYPE' (cells s c) = T STATIC then s\<lparr>console := console s @ [static_warning]\<rparr> else s)"

definition insert_fn :: "bool \<Rightarrow> 'a \<Rightarrow> 'a list option \<Rightarrow> 'a list option" where
  "insert_fn first f g =
     (let xs = (case g of None \<Rightarrow> [] | Some ys \<Rightarrow> ys)
      in Some (if first then f # xs else xs @ [f]))"

definition add_listener :: "group \<Rightarrow> listener \<Rightarrow> bool \<Rightarrow> nat \<Rightarrow> state \<Rightarrow> state" where
  "add_listener g f first c s =
     upd_cell c (\<lambda>d. set_group g (insert_fn first f (get_group g d)) d) (warn_static c s)"

definition add_filter :: "filter_fn \<Rightarrow> bool \<Rightarrow> nat \<Rightarrow> state \<Rightarrow> state" where
  "add_filter f first c s =
     upd_cell c (\<lambda>d. d\<lparr>filters := insert_fn first f (filters d)\<rparr>) (warn_static c s)"

text \<open>
  \<^verbatim>\<open>[REMOVE_LISTENER](group, func)\<close> (lines 320-329): removes the first entry identical to \<open>func\<close>, and
  the group itself when it becomes empty.
\<close>

definition remove_listener :: "group \<Rightarrow> listener \<Rightarrow> nat \<Rightarrow> state \<Rightarrow> state" where
  "remove_listener g f c s =
     (case get_group g (cells s c) of
        None \<Rightarrow> s
      | Some xs \<Rightarrow>
          if f \<in> set xs
          then upd_cell c (set_group g (if remove1 f xs = [] then None else Some (remove1 f xs))) s
          else s)"

fun remove_filter_id :: "nat \<Rightarrow> filter_fn list \<Rightarrow> filter_fn list" where
  "remove_filter_id i [] = []"
| "remove_filter_id i (f # fs) = (if filter_id f = i then fs else f # remove_filter_id i fs)"

definition remove_filter :: "filter_fn \<Rightarrow> nat \<Rightarrow> state \<Rightarrow> state" where
  "remove_filter f c s =
     (case filters (cells s c) of
        None \<Rightarrow> s
      | Some xs \<Rightarrow>
          if filter_id f \<in> set (map filter_id xs)
          then upd_cell c (\<lambda>d. d\<lparr>filters :=
                 (if remove_filter_id (filter_id f) xs = [] then None
                  else Some (remove_filter_id (filter_id f) xs))\<rparr>) s
          else s)"

text \<open>
  \<^verbatim>\<open>onUpdateSub\<close>, \<^verbatim>\<open>onPreUpdateSub\<close>, \<^verbatim>\<open>onPostUpdateSub\<close>, \<^verbatim>\<open>onTypeChangeSub\<close>
  (lines 355-408)
\<close>

definition onUpdateSub :: "nat \<Rightarrow> listener \<Rightarrow> bool \<Rightarrow> state \<Rightarrow> state" where
  "onUpdateSub c handler first s = add_listener Updates handler first c s"

definition onPreUpdateSub :: "nat \<Rightarrow> listener \<Rightarrow> bool \<Rightarrow> state \<Rightarrow> state" where
  "onPreUpdateSub c handler first s = add_listener Preupdates handler first c s"

definition onPostUpdateSub :: "nat \<Rightarrow> listener \<Rightarrow> bool \<Rightarrow> state \<Rightarrow> state" where
  "onPostUpdateSub c handler first s = add_listener Postupdates handler first c s"

definition onTypeChangeSub :: "nat \<Rightarrow> listener \<Rightarrow> bool \<Rightarrow> state \<Rightarrow> state" where
  "onTypeChangeSub c handler first s = add_listener TypeChanges handler first c s"

text \<open>The listener that \<^verbatim>\<open>top.updateHandle\<close> denotes.\<close>

definition handle_listener :: "nat option \<Rightarrow> listener" where
  "handle_listener h = (case h of None \<Rightarrow> NotAFunction | Some i \<Rightarrow> Handle i)"

text \<open>
  \<^verbatim>\<open>get value()\<close> (lines 104-120): when a cell other than this one is on top of the evaluation stack, it
  raises the top's pending type (if the top is \<open>INHERIT\<close>) and subscribes the top's update
  handle to this cell (if this cell is not \<open>STATIC\<close>). It returns \<^verbatim>\<open>this[VALUE]\<close>.
\<close>

definition subscribe_top :: "nat \<Rightarrow> nat \<Rightarrow> state \<Rightarrow> state" where
  "subscribe_top tp c s =
     (let s1 = (if TYPE' (cells s tp) = T INHERIT
                then upd_cell tp (\<lambda>d. d\<lparr>pendingType := js_max (pendingType d) (TYPE' (cells s c))\<rparr>) s
                else s)
      in if TYPE' (cells s1 c) \<noteq> T STATIC
         then onUpdateSub c (handle_listener (updateHandle (cells s1 tp))) False s1
         else s1)"

definition get_value :: "nat \<Rightarrow> state \<Rightarrow> val \<times> state" where
  "get_value c s =
     (let s' = (if childStack s \<noteq> []
                then (case last (childStack s) of
                        None \<Rightarrow> s
                      | Some tp \<Rightarrow> if tp \<noteq> c then subscribe_top tp c s else s)
                else s)
      in (VALUE (cells s' c), s'))"

text \<open>
  \<^verbatim>\<open>[REFRESH_HANDLE]()\<close> (lines 272-278): marks the old handle obsolete and creates a new
  one.
\<close>

definition refresh_handle :: "nat \<Rightarrow> state \<Rightarrow> state" where
  "refresh_handle c s =
     (let hs = (case updateHandle (cells s c) of
                  None \<Rightarrow> handles s
                | Some h \<Rightarrow> (handles s)(h := (handles s h)\<lparr>obsolete := True\<rparr>));
          h' = next_handle s
      in upd_cell c (\<lambda>d. d\<lparr>updateHandle := Some h'\<rparr>)
           (s\<lparr>handles := hs(h' := \<lparr>owner = c, obsolete = False\<rparr>), next_handle := Suc h'\<rparr>))"

definition push :: "nat option \<Rightarrow> state \<Rightarrow> state" where
  "push x s = s\<lparr>childStack := childStack s @ [x]\<rparr>"

definition pop :: "state \<Rightarrow> state" where
  "pop s = s\<lparr>childStack := butlast (childStack s)\<rparr>"

text \<open>The loop of the conditional's expression over \<^verbatim>\<open>this._ifThens\<close>.\<close>

fun first_then :: "((val \<Rightarrow> bool) \<times> val) list \<Rightarrow> val \<Rightarrow> val option" where
  "first_then [] v = None"
| "first_then ((condition, then') # xs) v = (if condition v then Some then' else first_then xs v)"

text \<open>
  Running an expression function with \<^verbatim>\<open>this = self\<close>. \<open>Immune\<close> is \<^verbatim>\<open>executeImmune\<close>
  (lines 286-294); \<open>CondExp\<close> is \<^verbatim>\<open>cond.exp\<close> of \<^verbatim>\<open>createBasicCond\<close>
  (\<^verbatim>\<open>src/DynxTransform.js\<close>, lines 74-84). An exception leaves the stack as it is.
\<close>

fun eval_expr :: "nat \<Rightarrow> expr \<Rightarrow> state \<Rightarrow> val outcome" where
  "eval_expr self (Const v) s = Normal v s"
| "eval_expr self (Read c) s = (case get_value c s of (v, s') \<Rightarrow> Normal v s')"
| "eval_expr self (Cond b x y) s =
     (case eval_expr self b s of
        Normal v s' \<Rightarrow> if truthy v then eval_expr self x s' else eval_expr self y s'
      | Threw e s' \<Rightarrow> Threw e s'
      | OutOfFuel \<Rightarrow> OutOfFuel)"
| "eval_expr self (Throw e) s = Threw e s"
| "eval_expr self (Immune e) s =
     (if childStack s = [] \<or> last (childStack s) \<noteq> Some self then Threw immune_error s
      else (case eval_expr self e (push None s) of
              Normal v s' \<Rightarrow> Normal v (pop s')
            | Threw e s' \<Rightarrow> Threw e s'
            | OutOfFuel \<Rightarrow> OutOfFuel))"
| "eval_expr self (CondExp p) s =
     (case get_value p s of
        (v, s') \<Rightarrow>
          (case (case ifThens (cells s' self) of
                   None \<Rightarrow> None
                 | Some a \<Rightarrow> first_then (arrays s' a) v) of
             Some r \<Rightarrow> Normal r s'
           | None \<Rightarrow> Normal (elseThen (cells s' self)) s'))"

text \<open>\<^verbatim>\<open>for(let filter of this.filters) newValue = filter.call(this, newValue)\<close>\<close>

fun apply_filters :: "filter_fn list \<Rightarrow> val \<Rightarrow> state \<Rightarrow> val outcome" where
  "apply_filters [] v s = Normal v s"
| "apply_filters (f # fs) v s =
     (case filter_body f v of Inl e \<Rightarrow> Threw e s | Inr v' \<Rightarrow> apply_filters fs v' s)"

text \<open>
  The evaluation block of \<^verbatim>\<open>update\<close> (\<^verbatim>\<open>if(this[EXP] || this.filters) { ... }\<close>, lines
  182-197): the new value, starting from \<open>newValue\<close>, which \<^verbatim>\<open>update\<close> has set to
  \<^verbatim>\<open>this[VALUE]\<close>.
\<close>

definition evaluate :: "nat \<Rightarrow> val \<Rightarrow> state \<Rightarrow> val outcome" where
  "evaluate c newValue s =
     (if EXP (cells s c) \<noteq> None \<or> filters (cells s c) \<noteq> None
      then bind (case EXP (cells s c) of
                   None \<Rightarrow> Normal newValue (push (Some c) (refresh_handle c s))
                 | Some e \<Rightarrow> eval_expr c e (push (Some c) (refresh_handle c s)))
             (\<lambda>v s1. bind (case filters (cells s1 c) of
                              None \<Rightarrow> Normal v s1
                            | Some fs \<Rightarrow> apply_filters fs v s1)
                        (\<lambda>v' s2. Normal v' (pop s2)))
      else Normal newValue s)"

text \<open>
  Calling a listener. The functions below take \<open>upd\<close>, the method \<^verbatim>\<open>update\<close> they call
  back into; \<open>update\<close> ties the knot further down.
\<close>

definition invoke :: "(nat \<Rightarrow> bool \<Rightarrow> state \<Rightarrow> unit outcome) \<Rightarrow> listener \<Rightarrow> state \<Rightarrow> unit outcome" where
  "invoke upd l s =
     (case l of
        Handle h \<Rightarrow> upd (owner (handles s h)) False s
      | User t \<Rightarrow> Normal () (s\<lparr>log := log s @ [t]\<rparr>)
      | NotAFunction \<Rightarrow> Threw TypeError s)"

text \<open>\<^verbatim>\<open>for(let listener of this.preupdates) listener.call(this)\<close>, and the same for \<^verbatim>\<open>postupdates\<close>.\<close>

fun run_all :: "(nat \<Rightarrow> bool \<Rightarrow> state \<Rightarrow> unit outcome) \<Rightarrow> listener list \<Rightarrow> state \<Rightarrow> unit outcome" where
  "run_all upd [] s = Normal () s"
| "run_all upd (l # ls) s = bind (invoke upd l s) (\<lambda>_. run_all upd ls)"

definition run_group :: "(nat \<Rightarrow> bool \<Rightarrow> state \<Rightarrow> unit outcome) \<Rightarrow> group \<Rightarrow> nat \<Rightarrow> state \<Rightarrow> unit outcome" where
  "run_group upd g c s =
     (case get_group g (cells s c) of None \<Rightarrow> Normal () s | Some ls \<Rightarrow> run_all upd ls s)"

text \<open>\<^verbatim>\<open>listener.obsolete\<close>: set on superseded update handles only.\<close>

fun is_obsolete :: "(nat \<Rightarrow> handle) \<Rightarrow> listener \<Rightarrow> bool" where
  "is_obsolete hs (Handle h) = obsolete (hs h)"
| "is_obsolete hs l = False"

text \<open>
  The queueing loop of \<^verbatim>\<open>[CALL_LISTENERS]\<close> over \<^verbatim>\<open>this[name]\<close>: \<open>kept\<close> are the entries
  passed so far and still in the array, \<open>q\<close> is the queue. It returns whether the loop
  completed (reading \<^verbatim>\<open>.obsolete\<close> of \<^verbatim>\<open>undefined\<close> throws), the group and the queue.
\<close>

fun scan :: "(nat \<Rightarrow> handle) \<Rightarrow> listener list \<Rightarrow> listener list \<Rightarrow> listener list
    \<Rightarrow> bool \<times> listener list option \<times> listener list" where
  "scan hs kept [] q = (True, Some kept, q)"
| "scan hs kept (NotAFunction # ls) q = (False, Some (kept @ NotAFunction # ls), q)"
| "scan hs kept (l # ls) q =
     (if is_obsolete hs l
      then (if kept = [] \<and> ls = [] then (True, None, q) else scan hs kept ls q)
      else scan hs (kept @ [l]) ls (q @ [l]))"

text \<open>
  \<^verbatim>\<open>while(listener = Dynx[queueName].shift()) listener()\<close>, at most \<open>k\<close> calls.
\<close>

fun drive :: "(nat \<Rightarrow> bool \<Rightarrow> state \<Rightarrow> unit outcome) \<Rightarrow> nat \<Rightarrow> group \<Rightarrow> state \<Rightarrow> unit outcome" where
  "drive upd 0 name s =
     (case queue s name of
        None \<Rightarrow> Threw TypeError s
      | Some [] \<Rightarrow> Normal () s
      | Some (l # q) \<Rightarrow> OutOfFuel)"
| "drive upd (Suc k) name s =
     (case queue s name of
        None \<Rightarrow> Threw TypeError s
      | Some [] \<Rightarrow> Normal () s
      | Some (l # q) \<Rightarrow>
          (case invoke upd l (s\<lparr>queue := (queue s)(name := Some q)\<rparr>) of
             Normal _ s' \<Rightarrow> drive upd k name s'
           | Threw e s' \<Rightarrow> Threw e s'
           | OutOfFuel \<Rightarrow> OutOfFuel))"

text \<open>
  \<^verbatim>\<open>[CALL_LISTENERS](name)\<close> (lines 233-267): \<open>enqueue\<close> is its first half, which creates
  the queue and queues the listeners of the group; the second half drives the queue
  unless a dispatch of this name is in progress. An exception leaves the flag set and the
  queue in place.
\<close>

definition enqueue :: "group \<Rightarrow> nat \<Rightarrow> state \<Rightarrow> unit outcome" where
  "enqueue name c s =
     (let q0 = (case queue s name of None \<Rightarrow> [] | Some q \<Rightarrow> q)
      in case get_group name (cells s c) of
           None \<Rightarrow> Normal () (s\<lparr>queue := (queue s)(name := Some q0)\<rparr>)
         | Some ls \<Rightarrow>
             (case scan (handles s) [] ls q0 of
                (ok, g, q) \<Rightarrow>
                  (let s' = upd_cell c (set_group name g) (s\<lparr>queue := (queue s)(name := Some q)\<rparr>)
                   in if ok then Normal () s' else Threw TypeError s')))"

definition call_listeners ::
  "(nat \<Rightarrow> bool \<Rightarrow> state \<Rightarrow> unit outcome) \<Rightarrow> nat \<Rightarrow> group \<Rightarrow> nat \<Rightarrow> state \<Rightarrow> unit outcome" where
  "call_listeners upd k name c s =
     bind (enqueue name c s)
       (\<lambda>_ s1. if \<not> inProgress s1 name
               then bind (drive upd k name (s1\<lparr>inProgress := (inProgress s1)(name := True)\<rparr>))
                      (\<lambda>_ s2. Normal () (s2\<lparr>inProgress := (inProgress s2)(name := False),
                                            queue := (queue s2)(name := None)\<rparr>))
               else Normal () s1)"

text \<open>\<^verbatim>\<open>set type(value)\<close> (lines 87-98)\<close>

definition set_type ::
  "(nat \<Rightarrow> bool \<Rightarrow> state \<Rightarrow> unit outcome) \<Rightarrow> nat \<Rightarrow> nat \<Rightarrow> tyval \<Rightarrow> state \<Rightarrow> unit outcome" where
  "set_type upd k c v s =
     (if TYPE' (cells s c) = T STATIC then Threw static_type_error s
      else if strict_neq (TYPE' (cells s c)) v
      then bind (if TYPE' (cells s c) = T INVALID
                 then upd c True (upd_cell c (\<lambda>d. d\<lparr>TYPE' := v\<rparr>) s)
                 else Normal () (upd_cell c (\<lambda>d. d\<lparr>TYPE' := v\<rparr>) s))
             (\<lambda>_. call_listeners upd k TypeChanges c)
      else Normal () s)"

text \<open>
  The last block of \<^verbatim>\<open>update\<close> (lines 218-225): \<^verbatim>\<open>delete\<close> of the references a \<open>STATIC\<close>
  cell does not need. \<^verbatim>\<open>typeChanges\<close> is not among them.
\<close>

definition release :: "nat \<Rightarrow> state \<Rightarrow> state" where
  "release c s =
     (if TYPE' (cells s c) = T STATIC
      then upd_cell c (\<lambda>d. d\<lparr>preupdates := None, EXP := None, filters := None,
                              updates := None, postupdates := None\<rparr>) s
      else s)"

text \<open>\<^verbatim>\<open>if(this.type === DynxType.INHERIT) this.pendingType = DynxType.STATIC\<close>\<close>

definition reset_pending :: "nat \<Rightarrow> state \<Rightarrow> state" where
  "reset_pending c s =
     (if TYPE' (cells s c) = T INHERIT
      then upd_cell c (\<lambda>d. d\<lparr>pendingType := T STATIC\<rparr>) s else s)"

text \<open>
  The body of \<^verbatim>\<open>update(force=false)\<close> (lines 167-226), in the order of the source: pre-update listeners, the
  pending type of an \<open>INHERIT\<close> cell, the evaluation, the new type of an \<open>INHERIT\<close> cell, the
  assignment and the update listeners when the value changed or \<open>force\<close>, the post-update
  listeners, the release.
\<close>

definition update_body ::
  "(nat \<Rightarrow> bool \<Rightarrow> state \<Rightarrow> unit outcome) \<Rightarrow> nat \<Rightarrow> nat \<Rightarrow> bool \<Rightarrow> state \<Rightarrow> unit outcome" where
  "update_body upd k c force s =
     bind (run_group upd Preupdates c s)
       (\<lambda>_ s1.
          bind (evaluate c (VALUE (cells s1 c)) (reset_pending c s1))
            (\<lambda>newValue s2.
               bind (if TYPE' (cells s2 c) = T INHERIT
                     then bind (set_type upd k c (pendingType (cells s2 c)) s2)
                            (\<lambda>_ s3. Normal () (upd_cell c (\<lambda>d. d\<lparr>pendingType := TUndefined\<rparr>) s3))
                     else Normal () s2)
                 (\<lambda>_ s4.
                    bind (if newValue \<noteq> VALUE (cells s4 c) \<or> force
                          then call_listeners upd k Updates c
                                 (upd_cell c (\<lambda>d. d\<lparr>VALUE := newValue\<rparr>) s4)
                          else Normal () s4)
                      (\<lambda>_ s5.
                         bind (run_group upd Postupdates c s5)
                           (\<lambda>_ s6. Normal () (release c s6))))))"

text \<open>
  \<^verbatim>\<open>update\<close>. The fuel bounds the depth of the calls of \<^verbatim>\<open>update\<close> inside one another and
  the number of listeners one dispatch loop calls.
\<close>

primrec update :: "nat \<Rightarrow> nat \<Rightarrow> bool \<Rightarrow> state \<Rightarrow> unit outcome" where
  "update 0 c force s = OutOfFuel"
| "update (Suc n) c force s = update_body (update n) n c force s"

text \<open>\<^verbatim>\<open>set value(value)\<close> (lines 126-137)\<close>

definition set_value ::
  "(nat \<Rightarrow> bool \<Rightarrow> state \<Rightarrow> unit outcome) \<Rightarrow> nat \<Rightarrow> val \<Rightarrow> state \<Rightarrow> unit outcome" where
  "set_value upd c v s =
     (if TYPE' (cells s c) = T STATIC then Threw static_value_error s
      else if VALUE (cells s c) \<noteq> v
      then (if TYPE' (cells s c) \<noteq> T INVALID
            then upd c True (upd_cell c (\<lambda>d. d\<lparr>EXP := None, VALUE := v\<rparr>) s)
            else Normal () (upd_cell c (\<lambda>d. d\<lparr>EXP := None, VALUE := v\<rparr>) s))
      else Normal () (upd_cell c (\<lambda>d. d\<lparr>EXP := None\<rparr>) s))"

text \<open>\<^verbatim>\<open>set exp(value)\<close> (lines 151-161), for a \<open>value\<close> that is a function.\<close>

definition set_exp ::
  "(nat \<Rightarrow> bool \<Rightarrow> state \<Rightarrow> unit outcome) \<Rightarrow> nat \<Rightarrow> expr \<Rightarrow> state \<Rightarrow> unit outcome" where
  "set_exp upd c e s =
     (if TYPE' (cells s c) = T STATIC then Threw static_value_error s
      else if TYPE' (cells s c) \<noteq> T INVALID
      then upd c False (upd_cell c (\<lambda>d. d\<lparr>EXP := Some e\<rparr>) s)
      else Normal () (upd_cell c (\<lambda>d. d\<lparr>EXP := Some e\<rparr>) s))"

text \<open>\<^verbatim>\<open>onFilterSub(handler, first=false)\<close> and \<^verbatim>\<open>onFilterUnsub(handler)\<close> (lines 336-348)\<close>

definition onFilterSub ::
  "(nat \<Rightarrow> bool \<Rightarrow> state \<Rightarrow> unit outcome) \<Rightarrow> nat \<Rightarrow> filter_fn \<Rightarrow> bool \<Rightarrow> state \<Rightarrow> unit outcome" where
  "onFilterSub upd c f first s = upd c False (add_filter f first c s)"

definition onFilterUnsub ::
  "(nat \<Rightarrow> bool \<Rightarrow> state \<Rightarrow> unit outcome) \<Rightarrow> nat \<Rightarrow> filter_fn \<Rightarrow> state \<Rightarrow> unit outcome" where
  "onFilterUnsub upd c f s = upd c False (remove_filter f c s)"

text \<open>
  \<^verbatim>\<open>finalize(value)\<close> (lines 423-426): \<^verbatim>\<open>this.value = value; this.type = DynxType.STATIC\<close>
\<close>

definition finalize ::
  "(nat \<Rightarrow> bool \<Rightarrow> state \<Rightarrow> unit outcome) \<Rightarrow> nat \<Rightarrow> nat \<Rightarrow> val \<Rightarrow> state \<Rightarrow> unit outcome" where
  "finalize upd k c v s = bind (set_value upd c v s) (\<lambda>_. set_type upd k c (T STATIC))"

text \<open>
  The wrapper called without \<^verbatim>\<open>new\<close> (lines 459-467): \<^verbatim>\<open>Dynx(value, type)\<close> creates a cell and assigns
  \<open>value\<close> as its expression.
\<close>

definition Dynx_call ::
  "(nat \<Rightarrow> bool \<Rightarrow> state \<Rightarrow> unit outcome) \<Rightarrow> expr \<Rightarrow> DynxType \<Rightarrow> state \<Rightarrow> nat outcome" where
  "Dynx_call upd e ty s =
     (case new_Dynx Undefined ty s of
        (c, s') \<Rightarrow> bind (set_exp upd c e s') (\<lambda>_ s''. Normal c s''))"

section \<open>src/DynxTransform.js\<close>

text \<open>
  \<^verbatim>\<open>createBasicCond(parentDynx, _ifThens=[], _elseThen=undefined)\<close> (lines 16-86): \<open>None\<close> for
  \<open>_ifThens\<close> is the omitted argument, for which a new array is created. The methods
  \<^verbatim>\<open>cond.if\<close> and \<^verbatim>\<open>cond.else\<close> are \<open>cond_if\<close> and \<open>cond_else\<close> below, with the
  captured variables kept in \<open>cond_env\<close>.
\<close>

definition new_array :: "state \<Rightarrow> nat \<times> state" where
  "new_array s =
     (next_array s, s\<lparr>arrays := (arrays s)(next_array s := []), next_array := Suc (next_array s)\<rparr>)"

definition createBasicCond ::
  "(nat \<Rightarrow> bool \<Rightarrow> state \<Rightarrow> unit outcome) \<Rightarrow> nat \<Rightarrow> nat \<Rightarrow> nat option \<Rightarrow> val \<Rightarrow> state \<Rightarrow> nat outcome" where
  "createBasicCond upd k parentDynx ifThens_arg elseThen_arg s =
     (case (case ifThens_arg of None \<Rightarrow> new_array s | Some a \<Rightarrow> (a, s)) of
        (a, s0) \<Rightarrow>
          (case new_Dynx Undefined DYNAMIC s0 of
             (cond, s1) \<Rightarrow>
               bind (set_type upd k cond (T INHERIT) s1)
                 (\<lambda>_ s2.
                    bind (set_exp upd cond (CondExp parentDynx)
                            (upd_cell cond
                               (\<lambda>d. d\<lparr>ifThens := Some a, elseThen := elseThen_arg,
                                       cond_env := Some \<lparr>c_parent = parentDynx, c_ifThens = a,
                                                          c_elseThen = elseThen_arg\<rparr>\<rparr>) s2))
                      (\<lambda>_ s3. Normal cond s3))))"

text \<open>\<^verbatim>\<open>cond.if(condition, then)\<close> with two arguments (lines 29-41), called on the cell \<open>c\<close>.\<close>

definition cond_if ::
  "(nat \<Rightarrow> bool \<Rightarrow> state \<Rightarrow> unit outcome) \<Rightarrow> nat \<Rightarrow> cond_closure \<Rightarrow> nat \<Rightarrow> (val \<Rightarrow> bool) \<Rightarrow> val
     \<Rightarrow> state \<Rightarrow> nat outcome" where
  "cond_if upd k env c condition then' s =
     (case ifThens (cells s c) of
        None \<Rightarrow> Threw TypeError s
      | Some a \<Rightarrow>
          (let s1 = s\<lparr>arrays := (arrays s)(a := arrays s a @ [(condition, then')])\<rparr>
           in if TYPE' (cells s1 c) = T STATIC
              then createBasicCond upd k (c_parent env) (Some (c_ifThens env)) (c_elseThen env) s1
              else bind (upd c False s1) (\<lambda>_ s2. Normal c s2)))"

text \<open>\<^verbatim>\<open>cond.else(then)\<close> (lines 63-72), called on the cell \<open>c\<close>.\<close>

definition cond_else ::
  "(nat \<Rightarrow> bool \<Rightarrow> state \<Rightarrow> unit outcome) \<Rightarrow> nat \<Rightarrow> cond_closure \<Rightarrow> nat \<Rightarrow> val
     \<Rightarrow> state \<Rightarrow> nat outcome" where
  "cond_else upd k env c then' s =
     (let s1 = upd_cell c (\<lambda>d. d\<lparr>elseThen := then'\<rparr>) s
      in if TYPE' (cells s1 c) = T STATIC
         then createBasicCond upd k (c_parent env) (Some (c_ifThens env)) (c_elseThen env) s1
         else bind (upd c False s1) (\<lambda>_ s2. Normal c s2))"

text \<open>
  The calls \<^verbatim>\<open>c.if(condition, then)\<close> and \<^verbatim>\<open>c.else(then)\<close> on any cell: the cell's own
  method when \<^verbatim>\<open>createBasicCond\<close> made it, and otherwise \<^verbatim>\<open>Dynx.prototype.if\<close>, which is
  \<^verbatim>\<open>createBasicCond(this).if(...arguments)\<close>; there is no \<^verbatim>\<open>Dynx.prototype.else\<close>.
\<close>

definition Dynx_if ::
  "(nat \<Rightarrow> bool \<Rightarrow> state \<Rightarrow> unit outcome) \<Rightarrow> nat \<Rightarrow> nat \<Rightarrow> (val \<Rightarrow> bool) \<Rightarrow> val
     \<Rightarrow> state \<Rightarrow> nat outcome" where
  "Dynx_if upd k c condition then' s =
     (case cond_env (cells s c) of
        Some env \<Rightarrow> cond_if upd k env c condition then' s
      | None \<Rightarrow>
          bind (createBasicCond upd k c None Undefined s)
            (\<lambda>cond s1.
               (case cond_env (cells s1 cond) of
                  Some env \<Rightarrow> cond_if upd k env cond condition then' s1
                | None \<Rightarrow> Threw TypeError s1)))"

definition Dynx_else ::
  "(nat \<Rightarrow> bool \<Rightarrow> state \<Rightarrow> unit outcome) \<Rightarrow> nat \<Rightarrow> nat \<Rightarrow> val \<Rightarrow> state \<Rightarrow> nat outcome" where
  "Dynx_else upd k c then' s =
     (case cond_env (cells s c) of
        Some env \<Rightarrow> cond_else upd k env c then' s
      | None \<Rightarrow> Threw TypeError s)"

section \<open>Scenarios\<close>

text \<open>
  Running a list of operations one after the other, the log emptied before each: the
  user callbacks that each operation made run, or \<open>None\<close> when one of them did not return.
\<close>

fun trace :: "(state \<Rightarrow> unit outcome) list \<Rightarrow> state \<Rightarrow> string list list option" where
  "trace [] s = Some []"
| "trace (m # ms) s =
     (case m (s\<lparr>log := []\<rparr>) of
        Normal _ s' \<Rightarrow> (case trace ms s' of None \<Rightarrow> None | Some ls \<Rightarrow> Some (log s' # ls))
      | Threw e s' \<Rightarrow> None
      | OutOfFuel \<Rightarrow> None)"

text \<open>
  The cells \<^verbatim>\<open>fork = new Dynx(true)\<close>, \<^verbatim>\<open>in1 = new Dynx(0)\<close>, \<^verbatim>\<open>in2 = new Dynx(1)\<close> and
  \<^verbatim>\<open>out = Dynx(() => fork.value ? in1.value : in2.value)\<close>, with a pre-update and an
  update listener on \<open>out\<close>.
\<close>

definition fork_cells :: "nat \<Rightarrow> (nat \<times> nat \<times> nat \<times> nat) outcome" where
  "fork_cells n =
     (case new_Dynx (Bool True) DYNAMIC init_state of
        (fork, s1) \<Rightarrow>
          (case new_Dynx (Num 0) DYNAMIC s1 of
             (in1, s2) \<Rightarrow>
               (case new_Dynx (Num 1) DYNAMIC s2 of
                  (in2, s3) \<Rightarrow>
                    bind (Dynx_call (update n) (Cond (Read fork) (Read in1) (Read in2)) DYNAMIC s3)
                      (\<lambda>out s4.
                         Normal (fork, in1, in2, out)
                           (onUpdateSub out (User ''out updated'') False
                              (onPreUpdateSub out (User ''out recomputes'') False s4))))))"

text \<open>A new cell with one user callback in each of the three update groups.\<close>

definition listening_cell :: "val \<Rightarrow> DynxType \<Rightarrow> nat \<times> state" where
  "listening_cell v ty =
     (case new_Dynx v ty init_state of
        (c, s) \<Rightarrow>
          (c, onPostUpdateSub c (User ''post-update'') False
                (onPreUpdateSub c (User ''pre-update'') False
                   (onUpdateSub c (User ''update'') False s))))"

text \<open>The filters \<^verbatim>\<open>x => x + 1\<close> and \<^verbatim>\<open>x => x * 10\<close> on numbers, and a filter that throws.\<close>

definition plus_one :: filter_fn where
  "plus_one = FilterFn 1 (\<lambda>v. case v of Num n \<Rightarrow> Inr (Num (n + 1)) | _ \<Rightarrow> Inr v)"

definition times_ten :: filter_fn where
  "times_ten = FilterFn 2 (\<lambda>v. case v of Num n \<Rightarrow> Inr (Num (n * 10)) | _ \<Rightarrow> Inr v)"

definition failing_filter :: filter_fn where
  "failing_filter = FilterFn 3 (\<lambda>v. Inl (Error ''filter failed''))"

text \<open>
  The cells \<^verbatim>\<open>a = new Dynx(false)\<close> and
  \<^verbatim>\<open>b = Dynx(() => { if(a.value) throw new Error('boom'); return 0; })\<close>.
\<close>

definition guarded_cells :: "nat \<Rightarrow> (nat \<times> nat) outcome" where
  "guarded_cells n =
     (case new_Dynx (Bool False) DYNAMIC init_state of
        (a, s1) \<Rightarrow>
          bind (Dynx_call (update n) (Cond (Read a) (Throw (Error ''boom'')) (Const (Num 0)))
                  DYNAMIC s1)
            (\<lambda>b s2. Normal (a, b) s2))"

text \<open>
  The cells \<^verbatim>\<open>a = new Dynx(1)\<close> and \<^verbatim>\<open>b = Dynx(() => a.value)\<close>, with one user callback
  in each of the three update groups of \<open>b\<close>.
\<close>

definition watched_cells :: "nat \<Rightarrow> (nat \<times> nat) outcome" where
  "watched_cells n =
     (case new_Dynx (Num 1) DYNAMIC init_state of
        (a, s1) \<Rightarrow>
          bind (Dynx_call (update n) (Read a) DYNAMIC s1)
            (\<lambda>b s2.
               Normal (a, b)
                 (onPostUpdateSub b (User ''b post-update'') False
                    (onUpdateSub b (User ''b update'') False
                       (onPreUpdateSub b (User ''b pre-update'') False s2)))))"

text \<open>The same cells after \<^verbatim>\<open>b.type = DynxType.INVALID\<close>.\<close>

definition invalid_dependent :: "nat \<Rightarrow> (nat \<times> nat) outcome" where
  "invalid_dependent n =
     bind (watched_cells n)
       (\<lambda>(a, b) s. bind (set_type (update n) n b (T INVALID) s) (\<lambda>_ s'. Normal (a, b) s'))"

text \<open>
  The cell \<^verbatim>\<open>new Dynx(1, DynxType.INVALID)\<close> with one user callback in each of the four
  listener groups, after \<^verbatim>\<open>c.exp = () => 7\<close>.
\<close>

definition pending_cell :: "nat \<Rightarrow> nat outcome" where
  "pending_cell n =
     (case listening_cell (Num 1) INVALID of
        (c, s) \<Rightarrow>
          bind (set_exp (update n) c (Const (Num 7))
                  (onTypeChangeSub c (User ''type-change'') False s))
            (\<lambda>_ s'. Normal c s'))"

text \<open>The condition \<^verbatim>\<open>x => x > 10\<close> on numbers.\<close>

definition above_ten :: "val \<Rightarrow> bool" where
  "above_ten v = (case v of Num n \<Rightarrow> 10 < n | _ \<Rightarrow> False)"

text \<open>The value stored in the cell that an operation returned.\<close>

definition value_of :: "nat outcome \<Rightarrow> val option" where
  "value_of m = (case m of Normal c s \<Rightarrow> Some (VALUE (cells s c)) | Threw e s \<Rightarrow> None | OutOfFuel \<Rightarrow> None)"

section \<open>Predicates used in the proofs\<close>

text \<open>
  \<open>after P m\<close>: the state in which the run \<open>m\<close> ends, whether it returned or threw,
  satisfies \<open>P\<close>.
\<close>

definition after :: "(state \<Rightarrow> bool) \<Rightarrow> 'a outcome \<Rightarrow> bool" where
  "after P m = (case m of Normal a s' \<Rightarrow> P s' | Threw e s' \<Rightarrow> P s' | OutOfFuel \<Rightarrow> True)"

text \<open>
  \<open>quiet s s'\<close>: from \<open>s\<close> to \<open>s'\<close> only subscriptions, pending types, update handles and
  the evaluation stack changed, as the evaluation of an expression does.
\<close>

definition quiet :: "state \<Rightarrow> state \<Rightarrow> bool" where
  "quiet s s' =
     ((\<forall>d. TYPE' (cells s' d) = TYPE' (cells s d) \<and> VALUE (cells s' d) = VALUE (cells s d)
          \<and> EXP (cells s' d) = EXP (cells s d) \<and> filters (cells s' d) = filters (cells s d)
          \<and> preupdates (cells s' d) = preupdates (cells s d)
          \<and> postupdates (cells s' d) = postupdates (cells s d)
          \<and> typeChanges (cells s' d) = typeChanges (cells s d)
          \<and> ifThens (cells s' d) = ifThens (cells s d)
          \<and> elseThen (cells s' d) = elseThen (cells s d))
      \<and> queue s' = queue s \<and> inProgress s' = inProgress s \<and> log s' = log s
      \<and> console s' = console s \<and> arrays s' = arrays s)"

text \<open>
  \<open>frame c s s'\<close>: what the engine never undoes for the cell \<open>c\<close>: an absent expression
  and absent filters stay absent, \<open>STATIC\<close> stays, and the value of a cell with neither
  expression nor filters stays. \<open>sound c upd\<close>: every call of \<open>upd\<close> keeps this.
\<close>

definition frame :: "nat \<Rightarrow> state \<Rightarrow> state \<Rightarrow> bool" where
  "frame c s s' =
     ((EXP (cells s c) = None \<longrightarrow> EXP (cells s' c) = None)
      \<and> (filters (cells s c) = None \<longrightarrow> filters (cells s' c) = None)
      \<and> (TYPE' (cells s c) = T STATIC \<longrightarrow> TYPE' (cells s' c) = T STATIC)
      \<and> (EXP (cells s c) = None \<and> filters (cells s c) = None
           \<longrightarrow> VALUE (cells s' c) = VALUE (cells s c)))"

definition sound :: "nat \<Rightarrow> (nat \<Rightarrow> bool \<Rightarrow> state \<Rightarrow> unit outcome) \<Rightarrow> bool" where
  "sound c upd = (\<forall>x f s. after (frame c s) (upd x f s))"

text \<open>
  The tags of a list of listeners that are all user callbacks, and of a listener group
  (an absent group has none). \<open>with_log l m\<close> is the run \<open>m\<close> with the log replaced.
\<close>

fun user_tags :: "listener list \<Rightarrow> string list option" where
  "user_tags [] = Some []"
| "user_tags (User t # ls) = (case user_tags ls of None \<Rightarrow> None | Some ts \<Rightarrow> Some (t # ts))"
| "user_tags (l # ls) = None"

definition group_tags :: "listener list option \<Rightarrow> string list option" where
  "group_tags g = (case g of None \<Rightarrow> Some [] | Some ls \<Rightarrow> user_tags ls)"

definition with_log :: "string list \<Rightarrow> 'a outcome \<Rightarrow> 'a outcome" where
  "with_log l m =
     (case m of Normal a s \<Rightarrow> Normal a (s\<lparr>log := l\<rparr>) | Threw e s \<Rightarrow> Threw e (s\<lparr>log := l\<rparr>)
      | OutOfFuel \<Rightarrow> OutOfFuel)"

section \<open>Evaluation\<close>

text \<open>
  The definitions that running \<^verbatim>\<open>update\<close>, the setters and the constructor on a given
  state unfolds.
\<close>

lemmas core_defs =
  new_Dynx_def init_state_def empty_cell_def Dynx_call_def set_exp_def bind_def upd_cell_def
  add_listener_def update_body_def run_group_def evaluate_def refresh_handle_def push_def
  pop_def get_value_def subscribe_top_def warn_static_def insert_fn_def handle_listener_def
  call_listeners_def enqueue_def release_def set_value_def invoke_def Let_def strict_neq_def
  set_type_def onUpdateSub_def onPreUpdateSub_def onPostUpdateSub_def reset_pending_def
  numeral_eq_Suc

section \<open>Evaluating an expression changes no value\<close>

lemma get_value_fst: "fst (get_value c s) = VALUE (cells s c)"
  by (simp add: get_value_def subscribe_top_def onUpdateSub_def add_listener_def
      warn_static_def upd_cell_def Let_def split: option.splits)

lemma quiet_refl: "quiet s s"
  by (simp add: quiet_def)

lemma quiet_trans: "quiet s s1 \<Longrightarrow> quiet s1 s2 \<Longrightarrow> quiet s s2"
  by (simp add: quiet_def)

lemma quiet_get_value: "quiet s (snd (get_value x s))"
  by (simp add: quiet_def get_value_def subscribe_top_def onUpdateSub_def add_listener_def
      warn_static_def upd_cell_def Let_def split: option.splits)

lemma quiet_push: "quiet s (push x s)"
  by (simp add: quiet_def push_def)

lemma quiet_pop: "quiet s (pop s)"
  by (simp add: quiet_def pop_def)

lemma quiet_refresh_handle: "quiet s (refresh_handle c s)"
  by (simp add: quiet_def refresh_handle_def upd_cell_def Let_def)

lemma after_simps [simp]:
  "after P (Normal a s) = P s" "after P (Threw e s) = P s" "after P OutOfFuel = True"
  by (simp_all add: after_def)

lemma after_NormalD: "after P m \<Longrightarrow> m = Normal a s \<Longrightarrow> P s"
  by simp

lemma after_ThrewD: "after P m \<Longrightarrow> m = Threw e s \<Longrightarrow> P s"
  by simp

lemma after_mono: "after P m \<Longrightarrow> (\<And>s. P s \<Longrightarrow> Q s) \<Longrightarrow> after Q m"
  by (cases m) auto

lemma after_bind:
  "after P m \<Longrightarrow> (\<And>a s1. m = Normal a s1 \<Longrightarrow> after P (f a s1)) \<Longrightarrow> after P (bind m f)"
  by (cases m) (auto simp: bind_def)

lemma after_quiet_trans: "quiet s s1 \<Longrightarrow> after (quiet s1) m \<Longrightarrow> after (quiet s) m"
  by (erule after_mono) (rule quiet_trans)

lemma quiet_eval_expr: "after (quiet s) (eval_expr self e s)"
proof (induction e arbitrary: s)
  case (Const c) show ?case by (simp add: quiet_refl)
next
  case (Read c)
  show ?case using quiet_get_value [of s c] by (cases "get_value c s") simp
next
  case (Cond b y z)
  show ?case
  proof (cases "eval_expr self b s")
    case (Normal v s1)
    then have q: "quiet s s1" using Cond.IH(1) [of s] by simp
    show ?thesis
      using Normal after_quiet_trans [OF q Cond.IH(2) [of s1]]
        after_quiet_trans [OF q Cond.IH(3) [of s1]] by simp
  next
    case (Threw x s1)
    then show ?thesis using Cond.IH(1) [of s] by simp
  next
    case OutOfFuel
    then show ?thesis by simp
  qed
next
  case (Throw e) show ?case by (simp add: quiet_refl)
next
  case (Immune e)
  show ?case
  proof (cases "childStack s = [] \<or> last (childStack s) \<noteq> Some self")
    case True
    then show ?thesis by (auto simp: quiet_refl)
  next
    case False
    have "after (quiet s) (eval_expr self e (push None s))"
      by (rule after_quiet_trans [OF quiet_push Immune.IH])
    then show ?thesis using False
      by (cases "eval_expr self e (push None s)") (auto intro: quiet_trans quiet_pop)
  qed
next
  case (CondExp p)
  show ?case using quiet_get_value [of s p]
    by (cases "get_value p s") (simp split: option.splits)
qed

lemma apply_filters_state: "after (\<lambda>s'. s' = s) (apply_filters fs v s)"
  by (induction fs arbitrary: v) (auto split: sum.splits)

lemma quiet_apply_filters: "after (quiet s) (apply_filters fs v s)"
  by (rule after_mono [OF apply_filters_state]) (simp add: quiet_refl)

lemma quiet_evaluate: "after (quiet s) (evaluate c nv s)"
proof (cases "EXP (cells s c) \<noteq> None \<or> filters (cells s c) \<noteq> None")
  case False
  then show ?thesis by (simp add: evaluate_def quiet_refl)
next
  case True
  let ?s0 = "push (Some c) (refresh_handle c s)"
  have q0: "quiet s ?s0"
    by (rule quiet_trans [OF quiet_refresh_handle quiet_push])
  have "after (quiet ?s0)
          (bind (case EXP (cells s c) of None \<Rightarrow> Normal nv ?s0 | Some e \<Rightarrow> eval_expr c e ?s0)
             (\<lambda>v s1. bind (case filters (cells s1 c) of None \<Rightarrow> Normal v s1
                                | Some fs \<Rightarrow> apply_filters fs v s1)
                        (\<lambda>v' s2. Normal v' (pop s2))))"
  proof (rule after_bind)
    show "after (quiet ?s0) (case EXP (cells s c) of None \<Rightarrow> Normal nv ?s0 | Some e \<Rightarrow> eval_expr c e ?s0)"
      by (simp add: quiet_refl quiet_eval_expr split: option.splits)
  next
    fix a s1
    assume "(case EXP (cells s c) of None \<Rightarrow> Normal nv ?s0 | Some e \<Rightarrow> eval_expr c e ?s0) = Normal a s1"
    then have q1: "quiet ?s0 s1"
      by (auto simp: quiet_refl split: option.splits
          dest: after_NormalD [OF quiet_eval_expr])
    have "after (quiet s1) (bind (case filters (cells s1 c) of None \<Rightarrow> Normal a s1
                                | Some fs \<Rightarrow> apply_filters fs a s1)
                        (\<lambda>v' s2. Normal v' (pop s2)))"
    proof (rule after_bind)
      show "after (quiet s1) (case filters (cells s1 c) of None \<Rightarrow> Normal a s1
                                | Some fs \<Rightarrow> apply_filters fs a s1)"
        by (simp add: quiet_refl quiet_apply_filters split: option.splits)
    next
      fix b s2
      assume "(case filters (cells s1 c) of None \<Rightarrow> Normal a s1
                                | Some fs \<Rightarrow> apply_filters fs a s1) = Normal b s2"
      then have "s2 = s1"
        by (auto split: option.splits dest: after_NormalD [OF apply_filters_state])
      then show "after (quiet s1) (Normal b (pop s2))" by (simp add: quiet_pop)
    qed
    then show "after (quiet ?s0) (bind (case filters (cells s1 c) of None \<Rightarrow> Normal a s1
                                | Some fs \<Rightarrow> apply_filters fs a s1)
                        (\<lambda>v' s2. Normal v' (pop s2)))"
      by (rule after_quiet_trans [OF q1])
  qed
  then have "after (quiet s)
          (bind (case EXP (cells s c) of None \<Rightarrow> Normal nv ?s0 | Some e \<Rightarrow> eval_expr c e ?s0)
             (\<lambda>v s1. bind (case filters (cells s1 c) of None \<Rightarrow> Normal v s1
                                | Some fs \<Rightarrow> apply_filters fs v s1)
                        (\<lambda>v' s2. Normal v' (pop s2))))"
    by (rule after_quiet_trans [OF q0])
  then show ?thesis using True by (simp add: evaluate_def)
qed

section \<open>What a cascade never undoes\<close>

lemma frame_refl: "frame c s s"
  by (simp add: frame_def)

lemma frame_trans: "frame c s s1 \<Longrightarrow> frame c s1 s2 \<Longrightarrow> frame c s s2"
  by (simp add: frame_def)

lemma quiet_frame: "quiet s s' \<Longrightarrow> frame c s s'"
  by (simp add: frame_def quiet_def)

lemma after_frame_trans: "frame c s s1 \<Longrightarrow> after (frame c s1) m \<Longrightarrow> after (frame c s) m"
  by (erule after_mono) (rule frame_trans)

lemma frame_bind:
  assumes "after (frame c s) m"
    and "\<And>a s1. m = Normal a s1 \<Longrightarrow> after (frame c s1) (f a s1)"
  shows "after (frame c s) (bind m f)"
proof (rule after_bind [OF assms(1)])
  fix a s1
  assume m: "m = Normal a s1"
  then have "frame c s s1" using assms(1) by simp
  then show "after (frame c s) (f a s1)"
    by (rule after_frame_trans) (rule assms(2) [OF m])
qed

lemma set_group_fields [simp]:
  "EXP (set_group g x d) = EXP d" "filters (set_group g x d) = filters d"
  "TYPE' (set_group g x d) = TYPE' d" "VALUE (set_group g x d) = VALUE d"
  by (cases g; simp)+

lemma frame_invoke: "sound c upd \<Longrightarrow> after (frame c s) (invoke upd l s)"
  by (cases l) (simp_all add: invoke_def sound_def frame_def)

lemma frame_run_all: "sound c upd \<Longrightarrow> after (frame c s) (run_all upd ls s)"
proof (induction ls arbitrary: s)
  case Nil
  show ?case by (simp add: frame_refl)
next
  case (Cons l ls)
  show ?case
    by (simp, rule frame_bind [OF frame_invoke [OF Cons.prems]]) (rule Cons.IH [OF Cons.prems])
qed

lemma frame_run_group: "sound c upd \<Longrightarrow> after (frame c s) (run_group upd g x s)"
  by (simp add: run_group_def frame_refl frame_run_all split: option.splits)

lemma frame_enqueue: "after (frame c s) (enqueue name x s)"
  by (simp add: enqueue_def frame_def upd_cell_def Let_def split: option.splits prod.splits)

lemma frame_drive: "sound c upd \<Longrightarrow> after (frame c s) (drive upd k name s)"
proof (induction k arbitrary: s)
  case 0
  show ?case by (simp add: frame_refl split: option.splits list.splits)
next
  case (Suc k)
  show ?case
  proof (cases "queue s name")
    case None
    then show ?thesis by (simp add: frame_refl)
  next
    case (Some q)
    show ?thesis
    proof (cases q)
      case Nil
      then show ?thesis using Some by (simp add: frame_refl)
    next
      case (Cons l q')
      let ?s0 = "s\<lparr>queue := (queue s)(name := Some q')\<rparr>"
      have f0: "frame c s ?s0" by (simp add: frame_def)
      have "after (frame c ?s0) (bind (invoke upd l ?s0) (\<lambda>_ s'. drive upd k name s'))"
        by (rule frame_bind [OF frame_invoke [OF Suc.prems]]) (rule Suc.IH [OF Suc.prems])
      then have "after (frame c s) (bind (invoke upd l ?s0) (\<lambda>_ s'. drive upd k name s'))"
        by (rule after_frame_trans [OF f0])
      then show ?thesis using Some Cons by (simp add: bind_def)
    qed
  qed
qed

lemma frame_call_listeners:
  assumes snd: "sound c upd"
  shows "after (frame c s) (call_listeners upd k name x s)"
  unfolding call_listeners_def
proof (rule frame_bind [OF frame_enqueue])
  fix a :: unit and s1 :: state
  let ?s1 = "s1\<lparr>inProgress := (inProgress s1)(name := True)\<rparr>"
  have f1: "frame c s1 ?s1" by (simp add: frame_def)
  have "after (frame c ?s1)
          (bind (drive upd k name ?s1)
             (\<lambda>_ s2. Normal () (s2\<lparr>inProgress := (inProgress s2)(name := False),
                                   queue := (queue s2)(name := None)\<rparr>)))"
    by (rule frame_bind [OF frame_drive [OF snd]]) (simp add: frame_def)
  then show "after (frame c s1)
          (if \<not> inProgress s1 name
           then bind (drive upd k name ?s1)
             (\<lambda>_ s2. Normal () (s2\<lparr>inProgress := (inProgress s2)(name := False),
                                   queue := (queue s2)(name := None)\<rparr>))
           else Normal () s1)"
    by (auto simp: frame_refl intro: after_frame_trans [OF f1])
qed

lemma frame_set_type:
  assumes snd: "sound c upd"
  shows "after (frame c s) (set_type upd k x v s)"
proof -
  let ?s0 = "upd_cell x (\<lambda>d. d\<lparr>TYPE' := v\<rparr>) s"
  show ?thesis
  proof (cases "TYPE' (cells s x) = T STATIC \<or> \<not> strict_neq (TYPE' (cells s x)) v")
    case True
    then show ?thesis by (auto simp: set_type_def frame_refl)
  next
    case False
    then have f0: "frame c s ?s0" by (simp add: frame_def upd_cell_def)
    have "after (frame c ?s0)
            (bind (if TYPE' (cells s x) = T INVALID then upd x True ?s0 else Normal () ?s0)
               (\<lambda>_. call_listeners upd k TypeChanges x))"
    proof (rule frame_bind)
      show "after (frame c ?s0) (if TYPE' (cells s x) = T INVALID then upd x True ?s0 else Normal () ?s0)"
        using snd by (simp add: sound_def frame_refl)
    qed (rule frame_call_listeners [OF snd])
    then show ?thesis using False by (auto simp: set_type_def intro: after_frame_trans [OF f0])
  qed
qed


lemma frame_reset_pending: "frame c s (reset_pending x s)"
  by (simp add: frame_def reset_pending_def upd_cell_def)

lemma frame_release: "frame c s (release x s)"
  by (simp add: frame_def release_def upd_cell_def)

lemma evaluate_constant:
  "EXP (cells s x) = None \<Longrightarrow> filters (cells s x) = None \<Longrightarrow> evaluate x nv s = Normal nv s"
  by (simp add: evaluate_def)

lemma frame_update_body:
  assumes snd: "sound c upd"
  shows "after (frame c s) (update_body upd k x force s)"
  unfolding update_body_def
proof (rule after_bind)
  show "after (frame c s) (run_group upd Preupdates x s)"
    by (rule frame_run_group [OF snd])
next
  fix a :: unit and s1 :: state
  assume m1: "run_group upd Preupdates x s = Normal a s1"
  have f1: "frame c s s1"
    by (rule after_NormalD [OF frame_run_group [OF snd] m1])
  let ?s1 = "reset_pending x s1"
  have f1': "frame c s ?s1"
    by (rule frame_trans [OF f1 frame_reset_pending])
  show "after (frame c s)
          (bind (evaluate x (VALUE (cells s1 x)) ?s1)
             (\<lambda>newValue s2.
                bind (if TYPE' (cells s2 x) = T INHERIT
                      then bind (set_type upd k x (pendingType (cells s2 x)) s2)
                             (\<lambda>_ s3. Normal () (upd_cell x (\<lambda>d. d\<lparr>pendingType := TUndefined\<rparr>) s3))
                      else Normal () s2)
                  (\<lambda>_ s4.
                     bind (if newValue \<noteq> VALUE (cells s4 x) \<or> force
                           then call_listeners upd k Updates x
                                  (upd_cell x (\<lambda>d. d\<lparr>VALUE := newValue\<rparr>) s4)
                           else Normal () s4)
                       (\<lambda>_ s5.
                          bind (run_group upd Postupdates x s5)
                            (\<lambda>_ s6. Normal () (release x s6))))))"
  proof (rule after_bind)
    show "after (frame c s) (evaluate x (VALUE (cells s1 x)) ?s1)"
      by (rule after_frame_trans [OF f1' after_mono [OF quiet_evaluate quiet_frame]])
  next
    fix nv :: val and s2 :: state
    assume m2: "evaluate x (VALUE (cells s1 x)) ?s1 = Normal nv s2"
    have f2: "frame c s s2"
      by (rule frame_trans [OF f1' quiet_frame [OF after_NormalD [OF quiet_evaluate m2]]])
    have nv: "nv = VALUE (cells s c)"
      if "x = c" "EXP (cells s c) = None" "filters (cells s c) = None"
    proof -
      have "EXP (cells ?s1 c) = None" "filters (cells ?s1 c) = None"
        using f1' that by (simp_all add: frame_def)
      then have "evaluate x (VALUE (cells s1 x)) ?s1 = Normal (VALUE (cells s1 x)) ?s1"
        using that(1) by (simp add: evaluate_constant)
      then have "nv = VALUE (cells s1 c)" using m2 that(1) by simp
      then show ?thesis using f1 that by (simp add: frame_def)
    qed
    show "after (frame c s)
            (bind (if TYPE' (cells s2 x) = T INHERIT
                   then bind (set_type upd k x (pendingType (cells s2 x)) s2)
                          (\<lambda>_ s3. Normal () (upd_cell x (\<lambda>d. d\<lparr>pendingType := TUndefined\<rparr>) s3))
                   else Normal () s2)
               (\<lambda>_ s4.
                  bind (if nv \<noteq> VALUE (cells s4 x) \<or> force
                        then call_listeners upd k Updates x
                               (upd_cell x (\<lambda>d. d\<lparr>VALUE := nv\<rparr>) s4)
                        else Normal () s4)
                    (\<lambda>_ s5.
                       bind (run_group upd Postupdates x s5)
                         (\<lambda>_ s6. Normal () (release x s6)))))"
    proof (rule after_bind)
      have "after (frame c s2)
              (bind (set_type upd k x (pendingType (cells s2 x)) s2)
                 (\<lambda>_ s3. Normal () (upd_cell x (\<lambda>d. d\<lparr>pendingType := TUndefined\<rparr>) s3)))"
        by (rule frame_bind [OF frame_set_type [OF snd]]) (simp add: frame_def upd_cell_def)
      then show "after (frame c s)
              (if TYPE' (cells s2 x) = T INHERIT
               then bind (set_type upd k x (pendingType (cells s2 x)) s2)
                      (\<lambda>_ s3. Normal () (upd_cell x (\<lambda>d. d\<lparr>pendingType := TUndefined\<rparr>) s3))
               else Normal () s2)"
        using f2 by (auto intro: after_frame_trans [OF f2])
    next
      fix u :: unit and s4 :: state
      assume m4: "(if TYPE' (cells s2 x) = T INHERIT
               then bind (set_type upd k x (pendingType (cells s2 x)) s2)
                      (\<lambda>_ s3. Normal () (upd_cell x (\<lambda>d. d\<lparr>pendingType := TUndefined\<rparr>) s3))
               else Normal () s2) = Normal u s4"
      have "after (frame c s2)
              (if TYPE' (cells s2 x) = T INHERIT
               then bind (set_type upd k x (pendingType (cells s2 x)) s2)
                      (\<lambda>_ s3. Normal () (upd_cell x (\<lambda>d. d\<lparr>pendingType := TUndefined\<rparr>) s3))
               else Normal () s2)"
        by (auto simp: frame_refl frame_def upd_cell_def
            intro!: frame_bind [OF frame_set_type [OF snd]])
      then have f4: "frame c s s4"
        using m4 f2 by (auto intro: frame_trans)
      let ?s4 = "upd_cell x (\<lambda>d. d\<lparr>VALUE := nv\<rparr>) s4"
      have f4': "frame c s ?s4"
        using f4 nv by (auto simp: frame_def upd_cell_def)
      show "after (frame c s)
              (bind (if nv \<noteq> VALUE (cells s4 x) \<or> force
                     then call_listeners upd k Updates x ?s4
                     else Normal () s4)
                 (\<lambda>_ s5.
                    bind (run_group upd Postupdates x s5)
                      (\<lambda>_ s6. Normal () (release x s6))))"
      proof (rule after_bind)
        show "after (frame c s)
                (if nv \<noteq> VALUE (cells s4 x) \<or> force
                 then call_listeners upd k Updates x ?s4 else Normal () s4)"
          using f4 after_frame_trans [OF f4' frame_call_listeners [OF snd]] by simp
      next
        fix u5 :: unit and s5 :: state
        assume m5: "(if nv \<noteq> VALUE (cells s4 x) \<or> force
                 then call_listeners upd k Updates x ?s4 else Normal () s4) = Normal u5 s5"
        have "after (frame c s)
                (if nv \<noteq> VALUE (cells s4 x) \<or> force
                 then call_listeners upd k Updates x ?s4 else Normal () s4)"
          using f4 after_frame_trans [OF f4' frame_call_listeners [OF snd]] by simp
        then have f5: "frame c s s5" using m5 by simp
        have "after (frame c s5)
                (bind (run_group upd Postupdates x s5) (\<lambda>_ s6. Normal () (release x s6)))"
          by (rule frame_bind [OF frame_run_group [OF snd]]) (simp add: frame_release)
        then show "after (frame c s)
                (bind (run_group upd Postupdates x s5) (\<lambda>_ s6. Normal () (release x s6)))"
          by (rule after_frame_trans [OF f5])
      qed
    qed
  qed
qed

lemma sound_update: "sound c (update n)"
proof (induction n)
  case 0
  show ?case by (simp add: sound_def)
next
  case (Suc n)
  show ?case using frame_update_body [OF Suc] by (simp add: sound_def)
qed

lemma frame_update: "after (frame c s) (update n x force s)"
  using sound_update [of c n] by (simp add: sound_def)

lemma set_value_constant:
  assumes "TYPE' (cells s c) \<noteq> T STATIC" and "filters (cells s c) = None"
  shows "after (\<lambda>s1. EXP (cells s1 c) = None \<and> filters (cells s1 c) = None \<and> VALUE (cells s1 c) = v)
           (set_value (update n) c v s)"
proof -
  let ?s0 = "upd_cell c (\<lambda>d. d\<lparr>EXP := None, VALUE := v\<rparr>) s"
  have "after (frame c ?s0) (update n c True ?s0)" by (rule frame_update)
  then have "after (\<lambda>s1. EXP (cells s1 c) = None \<and> filters (cells s1 c) = None \<and> VALUE (cells s1 c) = v)
               (update n c True ?s0)"
    by (rule after_mono) (simp add: frame_def upd_cell_def assms(2))
  then show ?thesis using assms by (auto simp: set_value_def upd_cell_def)
qed

lemma set_type_static:
  assumes "EXP (cells s c) = None" and "filters (cells s c) = None"
    and "set_type (update n) k c (T STATIC) s = Normal () s'"
  shows "TYPE' (cells s' c) = T STATIC \<and> VALUE (cells s' c) = VALUE (cells s c)"
proof -
  let ?s0 = "upd_cell c (\<lambda>d. d\<lparr>TYPE' := T STATIC\<rparr>) s"
  have ns: "TYPE' (cells s c) \<noteq> T STATIC"
    using assms(3) by (auto simp: set_type_def)
  then have run: "bind (if TYPE' (cells s c) = T INVALID then update n c True ?s0 else Normal () ?s0)
                    (\<lambda>_. call_listeners (update n) k TypeChanges c) = Normal () s'"
    using assms(3) by (simp add: set_type_def strict_neq_def)
  have "after (frame c ?s0)
          (bind (if TYPE' (cells s c) = T INVALID then update n c True ?s0 else Normal () ?s0)
             (\<lambda>_. call_listeners (update n) k TypeChanges c))"
    by (rule frame_bind) (simp_all add: frame_update frame_refl frame_call_listeners [OF sound_update])
  then have "frame c ?s0 s'" using run by simp
  then show ?thesis using assms(1,2) by (simp add: frame_def upd_cell_def)
qed

section \<open>Listener groups of user callbacks\<close>

lemma user_tags_Cons:
  "user_tags (l # ls) = Some ts \<Longrightarrow> \<exists>t ts'. l = User t \<and> ts = t # ts' \<and> user_tags ls = Some ts'"
  by (cases l) (auto split: option.splits)

lemma user_tags_length: "user_tags ls = Some ts \<Longrightarrow> length ts = length ls"
  by (induction ls arbitrary: ts) (auto dest!: user_tags_Cons)

lemma run_all_users: "user_tags ls = Some ts \<Longrightarrow> run_all upd ls s = Normal () (s\<lparr>log := log s @ ts\<rparr>)"
proof (induction ls arbitrary: s ts)
  case Nil
  then show ?case by simp
next
  case (Cons l ls)
  from user_tags_Cons [OF Cons.prems] obtain t ts' where
    l: "l = User t" "ts = t # ts'" "user_tags ls = Some ts'" by blast
  show ?case using Cons.IH [OF l(3)] l by (simp add: invoke_def bind_def)
qed

lemma run_group_users:
  "group_tags (get_group g (cells s c)) = Some ts \<Longrightarrow>
   run_group upd g c s = Normal () (s\<lparr>log := log s @ ts\<rparr>)"
  by (auto simp: run_group_def group_tags_def run_all_users split: option.splits)

lemma scan_users: "user_tags ls = Some ts \<Longrightarrow> scan hs kept ls q = (True, Some (kept @ ls), q @ ls)"
proof (induction ls arbitrary: kept q ts)
  case Nil
  then show ?case by simp
next
  case (Cons l ls)
  from user_tags_Cons [OF Cons.prems] obtain t ts' where
    l: "l = User t" "ts = t # ts'" "user_tags ls = Some ts'" by blast
  show ?case using Cons.IH [OF l(3)] l by simp
qed

lemma drive_users:
  "user_tags q = Some ts \<Longrightarrow> length q \<le> k \<Longrightarrow> queue s name = Some q \<Longrightarrow>
   drive upd k name s = Normal () (s\<lparr>queue := (queue s)(name := Some []), log := log s @ ts\<rparr>)"
proof (induction q arbitrary: k s ts)
  case Nil
  then show ?case by (cases k) (simp_all add: fun_upd_idem)
next
  case (Cons l q)
  from user_tags_Cons [OF Cons.prems(1)] obtain t ts' where
    l: "l = User t" "ts = t # ts'" "user_tags q = Some ts'" by blast
  from Cons.prems(2) obtain k' where k: "k = Suc k'" "length q \<le> k'" by (cases k) auto
  let ?s0 = "s\<lparr>queue := (queue s)(name := Some q), log := log s @ [t]\<rparr>"
  have step: "drive upd (Suc k') name s = drive upd k' name ?s0"
    using Cons.prems(3) l(1) by (simp add: invoke_def)
  have ih: "drive upd k' name ?s0 =
          Normal () (?s0\<lparr>queue := (queue ?s0)(name := Some []), log := log ?s0 @ ts'\<rparr>)"
    by (rule Cons.IH [OF l(3) k(2)]) simp
  have eq: "?s0\<lparr>queue := (queue ?s0)(name := Some []), log := log ?s0 @ ts'\<rparr> =
            s\<lparr>queue := (queue s)(name := Some []), log := log s @ ts\<rparr>"
    using l(2) by simp
  show ?case unfolding k(1) step ih eq by (rule refl)
qed

lemma set_group_get_group [simp]: "set_group g (get_group g d) d = d"
  by (cases g) simp_all

lemma call_listeners_users:
  assumes "group_tags (get_group name (cells s c)) = Some ts"
    and "queue s name = None" and "\<not> inProgress s name" and "length ts \<le> k"
  shows "call_listeners upd k name c s = Normal () (s\<lparr>log := log s @ ts\<rparr>)"
proof (cases "get_group name (cells s c)")
  case None
  then have "ts = []" using assms(1) by (simp add: group_tags_def)
  then show ?thesis using None assms(2,3)
    by (cases k) (simp_all add: call_listeners_def enqueue_def bind_def fun_upd_idem)
next
  case (Some ls)
  then have ut: "user_tags ls = Some ts" using assms(1) by (simp add: group_tags_def)
  have len: "length ls \<le> k" using user_tags_length [OF ut] assms(4) by simp
  have "set_group name (Some ls) (cells s c) = cells s c"
    using set_group_get_group [of name "cells s c"] Some by simp
  then have same: "upd_cell c (set_group name (Some ls)) s' = s'" if "cells s' = cells s" for s'
    using that by (simp add: upd_cell_def)
  let ?s1 = "s\<lparr>queue := (queue s)(name := Some ls), inProgress := (inProgress s)(name := True)\<rparr>"
  have "drive upd k name ?s1 =
          Normal () (?s1\<lparr>queue := (queue ?s1)(name := Some []), log := log ?s1 @ ts\<rparr>)"
    by (rule drive_users [OF ut len]) simp
  then show ?thesis using Some assms(2,3) scan_users [OF ut, of "handles s" "[]" "[]"]
    by (simp add: call_listeners_def enqueue_def bind_def same fun_upd_idem)
qed


lemma with_log_simps [simp]:
  "with_log l (Normal a s) = Normal a (s\<lparr>log := l\<rparr>)"
  "with_log l (Threw e s) = Threw e (s\<lparr>log := l\<rparr>)"
  "with_log l OutOfFuel = OutOfFuel"
  by (simp_all add: with_log_def)

lemma get_value_log:
  "get_value x (s\<lparr>log := l\<rparr>) = (fst (get_value x s), (snd (get_value x s))\<lparr>log := l\<rparr>)"
  by (simp add: get_value_def subscribe_top_def onUpdateSub_def add_listener_def
      warn_static_def upd_cell_def Let_def split: option.splits)

lemma push_log: "push x (s\<lparr>log := l\<rparr>) = (push x s)\<lparr>log := l\<rparr>"
  by (simp add: push_def)

lemma pop_log: "pop (s\<lparr>log := l\<rparr>) = (pop s)\<lparr>log := l\<rparr>"
  by (simp add: pop_def)

lemma refresh_handle_log: "refresh_handle c (s\<lparr>log := l\<rparr>) = (refresh_handle c s)\<lparr>log := l\<rparr>"
  by (simp add: refresh_handle_def upd_cell_def Let_def split: option.splits)

lemma eval_expr_log: "eval_expr c e (s\<lparr>log := l\<rparr>) = with_log l (eval_expr c e s)"
proof (induction e arbitrary: s)
  case (Const v) show ?case by simp
next
  case (Read x) show ?case by (cases "get_value x s") (simp add: get_value_log)
next
  case (Cond b y z)
  show ?case by (cases "eval_expr c b s") (simp_all add: Cond.IH)
next
  case (Throw x) show ?case by simp
next
  case (Immune e)
  show ?case
    by (cases "eval_expr c e (push None s)") (simp_all add: Immune.IH push_log pop_log)
next
  case (CondExp p)
  show ?case by (cases "get_value p s") (simp add: get_value_log split: option.splits)
qed

lemma apply_filters_log: "apply_filters fs v (s\<lparr>log := l\<rparr>) = with_log l (apply_filters fs v s)"
  by (induction fs arbitrary: v) (auto split: sum.splits)

lemma evaluate_log: "evaluate c nv (s\<lparr>log := l\<rparr>) = with_log l (evaluate c nv s)"
proof (cases "EXP (cells s c) \<noteq> None \<or> filters (cells s c) \<noteq> None")
  case False
  then show ?thesis by (simp add: evaluate_def)
next
  case True
  define fin where "fin = (\<lambda>v s1. bind (case filters (cells s1 c) of None \<Rightarrow> Normal v s1
                      | Some fs \<Rightarrow> apply_filters fs v s1) (\<lambda>v' s2. Normal v' (pop s2)))"
  define m where "m = (case EXP (cells s c) of
                  None \<Rightarrow> Normal nv (push (Some c) (refresh_handle c s))
                | Some e \<Rightarrow> eval_expr c e (push (Some c) (refresh_handle c s)))"
  have inner: "fin v (s1\<lparr>log := l\<rparr>) = with_log l (fin v s1)" for v s1
  proof (cases "filters (cells s1 c)")
    case None
    then show ?thesis by (simp add: fin_def bind_def pop_log)
  next
    case (Some fs)
    then show ?thesis
      by (cases "apply_filters fs v s1") (simp_all add: fin_def bind_def pop_log apply_filters_log)
  qed
  have outer: "(case EXP (cells s c) of
                  None \<Rightarrow> Normal nv (push (Some c) (refresh_handle c (s\<lparr>log := l\<rparr>)))
                | Some e \<Rightarrow> eval_expr c e (push (Some c) (refresh_handle c (s\<lparr>log := l\<rparr>)))) =
               with_log l m"
    by (simp add: m_def refresh_handle_log push_log eval_expr_log split: option.splits)
  have L: "evaluate c nv (s\<lparr>log := l\<rparr>) = bind (with_log l m) fin"
    using True by (simp add: evaluate_def outer fin_def)
  have R: "evaluate c nv s = bind m fin"
    using True by (simp add: evaluate_def m_def fin_def)
  show ?thesis unfolding L R by (cases m) (simp_all add: bind_def inner)
qed

lemma get_value_own:
  assumes "childStack s \<noteq> []" and "last (childStack s) = Some c \<or> last (childStack s) = None"
  shows "childStack (snd (get_value x s)) = childStack s
         \<and> updates (cells (snd (get_value x s)) c) = updates (cells s c)"
  using assms
  by (auto simp: get_value_def subscribe_top_def onUpdateSub_def add_listener_def
      warn_static_def upd_cell_def Let_def split: option.splits)

lemma eval_expr_own:
  assumes "childStack s \<noteq> []" and "last (childStack s) = Some c \<or> last (childStack s) = None"
    and "eval_expr c e s = Normal v s'"
  shows "childStack s' = childStack s \<and> updates (cells s' c) = updates (cells s c)"
  using assms
proof (induction e arbitrary: s v s')
  case (Const x) then show ?case by simp
next
  case (Read x)
  then show ?case using get_value_own [of s c x] by (auto split: prod.splits)
next
  case (Cond b y z)
  from Cond.prems(3) obtain w s1 where b: "eval_expr c b s = Normal w s1"
    and r: "(if truthy w then eval_expr c y s1 else eval_expr c z s1) = Normal v s'"
    by (auto split: outcome.splits)
  have 1: "childStack s1 = childStack s \<and> updates (cells s1 c) = updates (cells s c)"
    by (rule Cond.IH(1) [OF Cond.prems(1,2) b])
  then have st: "childStack s1 \<noteq> []" "last (childStack s1) = Some c \<or> last (childStack s1) = None"
    using Cond.prems(1,2) by simp_all
  show ?case
  proof (cases "truthy w")
    case True
    then show ?thesis using Cond.IH(2) [OF st, of v s'] r 1 by simp
  next
    case False
    then show ?thesis using Cond.IH(3) [OF st, of v s'] r 1 by simp
  qed
next
  case (Throw x) then show ?case by simp
next
  case (Immune e)
  from Immune.prems(3) obtain s1 where e: "eval_expr c e (push None s) = Normal v s1"
    and s': "s' = pop s1"
    by (auto split: outcome.splits if_splits)
  have "childStack s1 = childStack (push None s) \<and> updates (cells s1 c) = updates (cells (push None s) c)"
    by (rule Immune.IH [OF _ _ e]) (simp_all add: push_def)
  then show ?case using s' by (simp add: push_def pop_def)
next
  case (CondExp p)
  then show ?case using get_value_own [of s c p] by (auto split: prod.splits option.splits)
qed

lemma evaluate_own_updates:
  assumes "evaluate c nv s = Normal v s'"
  shows "updates (cells s' c) = updates (cells s c)"
proof (cases "EXP (cells s c) \<noteq> None \<or> filters (cells s c) \<noteq> None")
  case False
  then show ?thesis using assms by (simp add: evaluate_def)
next
  case True
  let ?s0 = "push (Some c) (refresh_handle c s)"
  have u0: "updates (cells ?s0 c) = updates (cells s c)"
    by (simp add: push_def refresh_handle_def upd_cell_def Let_def)
  from assms True obtain w s1 where
    e: "(case EXP (cells s c) of None \<Rightarrow> Normal nv ?s0 | Some e \<Rightarrow> eval_expr c e ?s0) = Normal w s1"
    and f: "bind (case filters (cells s1 c) of None \<Rightarrow> Normal w s1 | Some fs \<Rightarrow> apply_filters fs w s1)
              (\<lambda>v' s2. Normal v' (pop s2)) = Normal v s'"
    by (auto simp: evaluate_def bind_def split: outcome.splits)
  have u1: "updates (cells s1 c) = updates (cells ?s0 c)"
  proof (cases "EXP (cells s c)")
    case None
    then show ?thesis using e by simp
  next
    case (Some ex)
    then have "eval_expr c ex ?s0 = Normal w s1" using e by simp
    then show ?thesis using eval_expr_own [of ?s0 c ex w s1] by (simp add: push_def)
  qed
  from f obtain s2 where "s' = pop s2" and
    "(case filters (cells s1 c) of None \<Rightarrow> Normal w s1 | Some fs \<Rightarrow> apply_filters fs w s1) = Normal v s2"
    by (auto simp: bind_def split: outcome.splits)
  then have "s' = pop s1"
    by (auto split: option.splits dest: after_NormalD [OF apply_filters_state])
  then show ?thesis using u0 u1 by (simp add: pop_def)
qed

text \<open>
  \<^verbatim>\<open>update\<close> on a cell that is not \<open>INHERIT\<close> and whose listeners are user callbacks: with
  an unchanged value and no force; up to the dispatch of the update group; and through
  the dispatch when no dispatch is in progress.
\<close>

lemma release_log: "release c (s\<lparr>log := l\<rparr>) = (release c s)\<lparr>log := l\<rparr>"
  by (simp add: release_def upd_cell_def)

lemma update_unchanged_users:
  assumes ty: "TYPE' (cells s c) \<noteq> T INHERIT"
    and pre: "group_tags (preupdates (cells s c)) = Some pre"
    and post: "group_tags (postupdates (cells s c)) = Some post"
    and ev: "evaluate c (VALUE (cells s c)) s = Normal v s2"
    and same: "v = VALUE (cells s c)"
  shows "update (Suc n) c False s = Normal () (release c (s2\<lparr>log := log s @ pre @ post\<rparr>))"
proof -
  let ?s1 = "s\<lparr>log := log s @ pre\<rparr>"
  let ?s2 = "s2\<lparr>log := log s @ pre\<rparr>"
  have q: "quiet s s2" by (rule after_NormalD [OF quiet_evaluate ev])
  have r1: "run_group (update n) Preupdates c s = Normal () ?s1"
    by (rule run_group_users) (simp add: pre)
  have rp: "reset_pending c ?s1 = ?s1" using ty by (simp add: reset_pending_def)
  have e1: "evaluate c (VALUE (cells ?s1 c)) (reset_pending c ?s1) = Normal v ?s2"
    unfolding rp using ev by (simp add: evaluate_log)
  have t2: "TYPE' (cells ?s2 c) \<noteq> T INHERIT" and v2: "VALUE (cells ?s2 c) = VALUE (cells s c)"
    using q ty by (simp_all add: quiet_def)
  have p2: "run_group (update n) Postupdates c ?s2 = Normal () (?s2\<lparr>log := log ?s2 @ post\<rparr>)"
    by (rule run_group_users) (use q post in \<open>simp add: quiet_def\<close>)
  show ?thesis using same r1 e1 t2 v2 p2 by (simp add: update_body_def bind_def)
qed

lemma update_dispatch_users:
  assumes ty: "TYPE' (cells s c) \<noteq> T INHERIT"
    and pre: "group_tags (preupdates (cells s c)) = Some pre"
    and ev: "evaluate c (VALUE (cells s c)) s = Normal v s2"
    and go: "v \<noteq> VALUE (cells s c) \<or> force"
  shows "update (Suc n) c force s =
           bind (call_listeners (update n) n Updates c
                   (upd_cell c (\<lambda>d. d\<lparr>VALUE := v\<rparr>) (s2\<lparr>log := log s @ pre\<rparr>)))
             (\<lambda>_ s5. bind (run_group (update n) Postupdates c s5)
                        (\<lambda>_ s6. Normal () (release c s6)))"
proof -
  let ?s1 = "s\<lparr>log := log s @ pre\<rparr>"
  let ?s2 = "s2\<lparr>log := log s @ pre\<rparr>"
  have q: "quiet s s2" by (rule after_NormalD [OF quiet_evaluate ev])
  have r1: "run_group (update n) Preupdates c s = Normal () ?s1"
    by (rule run_group_users) (simp add: pre)
  have rp: "reset_pending c ?s1 = ?s1" using ty by (simp add: reset_pending_def)
  have e1: "evaluate c (VALUE (cells ?s1 c)) (reset_pending c ?s1) = Normal v ?s2"
    unfolding rp using ev by (simp add: evaluate_log)
  have t2: "TYPE' (cells ?s2 c) \<noteq> T INHERIT" and v2: "VALUE (cells ?s2 c) = VALUE (cells s c)"
    using q ty by (simp_all add: quiet_def)
  show ?thesis using go r1 e1 t2 v2 by (auto simp: update_body_def bind_def)
qed

lemma update_changed_users:
  assumes ty: "TYPE' (cells s c) \<noteq> T INHERIT"
    and pre: "group_tags (preupdates (cells s c)) = Some pre"
    and upds: "group_tags (updates (cells s c)) = Some upds"
    and post: "group_tags (postupdates (cells s c)) = Some post"
    and idle: "queue s Updates = None" "\<not> inProgress s Updates"
    and ev: "evaluate c (VALUE (cells s c)) s = Normal v s2"
    and fuel: "length upds \<le> n"
    and go: "v \<noteq> VALUE (cells s c) \<or> force"
  shows "update (Suc n) c force s =
           Normal () (release c (upd_cell c (\<lambda>d. d\<lparr>VALUE := v\<rparr>) s2
                                   \<lparr>log := log s @ pre @ upds @ post\<rparr>))"
proof -
  let ?s2 = "s2\<lparr>log := log s @ pre\<rparr>"
  let ?s3 = "upd_cell c (\<lambda>d. d\<lparr>VALUE := v\<rparr>) ?s2"
  have q: "quiet s s2" by (rule after_NormalD [OF quiet_evaluate ev])
  have u2: "updates (cells s2 c) = updates (cells s c)"
    by (rule evaluate_own_updates [OF ev])
  have c3: "call_listeners (update n) n Updates c ?s3 = Normal () (?s3\<lparr>log := log ?s3 @ upds\<rparr>)"
    by (rule call_listeners_users)
      (use q upds u2 idle fuel in \<open>simp_all add: quiet_def upd_cell_def\<close>)
  have p3: "run_group (update n) Postupdates c (?s3\<lparr>log := log ?s3 @ upds\<rparr>) =
              Normal () (?s3\<lparr>log := log ?s3 @ upds\<rparr>\<lparr>log := log (?s3\<lparr>log := log ?s3 @ upds\<rparr>) @ post\<rparr>)"
    by (rule run_group_users) (use q post in \<open>simp add: quiet_def upd_cell_def\<close>)
  show ?thesis
    unfolding update_dispatch_users [OF ty pre ev go] c3
    using p3 by (simp add: bind_def upd_cell_def)
qed

section \<open>Claims\<close>

text \<open>
  C1. Dynamic minimal subscription: with \<open>fork = true\<close>, \<open>in1 = 0\<close>, \<open>in2 = 1\<close> and
  \<open>out = fork ? in1 : in2\<close>, a change of \<open>in2\<close> makes none of the listeners of \<open>out\<close> run
  and a change of \<open>in1\<close> makes them run; after \<open>fork\<close> is set to false (which makes them
  run as well) a change of \<open>in1\<close> makes none run and a change of \<open>in2\<close> does.
\<close>

theorem C1_dynamic_minimal_subscription:
  "(case fork_cells 3 of
      Normal (fork, in1, in2, out) s \<Rightarrow>
        trace [set_value (update 5) in2 (Num 2),
               set_value (update 5) in1 (Num 1),
               set_value (update 5) fork (Bool False),
               set_value (update 5) in1 (Num 2),
               set_value (update 5) in2 (Num 3)] s
    | Threw e s \<Rightarrow> None
    | OutOfFuel \<Rightarrow> None) =
   Some [[],
         [''out recomputes'', ''out updated''],
         [''out recomputes'', ''out updated''],
         [],
         [''out recomputes'', ''out updated'']]"
  by (simp add: fork_cells_def core_defs)

text \<open>
  C2, as stated: \<open>update(false)\<close> on an unchanged value runs none of the update, pre-update
  and post-update listeners. It runs the pre-update and the post-update listeners: on
  \<^verbatim>\<open>new Dynx(0)\<close> with one callback in each group, \<open>update(false)\<close> leaves the value as it
  is and runs two of the three.
\<close>

theorem C2_update_false_runs_pre_and_post:
  "(case listening_cell (Num 0) DYNAMIC of
      (c, s) \<Rightarrow>
        (case update 2 c False s of
           Normal _ s' \<Rightarrow>
             VALUE (cells s' c) = VALUE (cells s c) \<and> log s' = [''pre-update'', ''post-update'']
         | Threw e s' \<Rightarrow> False
         | OutOfFuel \<Rightarrow> False))"
  by (simp add: listening_cell_def core_defs)

text \<open>
  C2, amended. For a cell that is not \<open>INHERIT\<close>, whose pre-update and post-update
  listeners are user callbacks and whose recomputation returns \<open>v\<close>: \<open>update(false)\<close> with
  \<open>v\<close> the stored value runs the pre-update and the post-update listeners and nothing
  else, whatever the update group holds and whether or not a dispatch is in progress;
  \<open>update(true)\<close> runs the pre-update listeners, stores \<open>v\<close>, hands the update group to the
  dispatch whatever \<open>v\<close> is, and then runs the post-update listeners; when the update
  listeners are user callbacks and no dispatch is in progress, they run between the
  pre-update and the post-update listeners; the assignment of the stored value to a cell
  that is not \<open>STATIC\<close> runs nothing and only deletes the expression.
\<close>

theorem C2_force_semantics:
  assumes ty: "TYPE' (cells s c) \<noteq> T INHERIT"
    and pre: "group_tags (preupdates (cells s c)) = Some pre"
    and post: "group_tags (postupdates (cells s c)) = Some post"
    and ev: "evaluate c (VALUE (cells s c)) s = Normal v s2"
  shows "(v = VALUE (cells s c) \<longrightarrow>
            update (Suc n) c False s = Normal () (release c (s2\<lparr>log := log s @ pre @ post\<rparr>)))
         \<and> update (Suc n) c True s =
               bind (call_listeners (update n) n Updates c
                       (upd_cell c (\<lambda>d. d\<lparr>VALUE := v\<rparr>) (s2\<lparr>log := log s @ pre\<rparr>)))
                 (\<lambda>_ s5. bind (run_group (update n) Postupdates c s5)
                            (\<lambda>_ s6. Normal () (release c s6)))
         \<and> (group_tags (updates (cells s c)) = Some upds \<and> queue s Updates = None
              \<and> \<not> inProgress s Updates \<and> length upds \<le> n \<longrightarrow>
               update (Suc n) c True s =
                 Normal () (release c (upd_cell c (\<lambda>d. d\<lparr>VALUE := v\<rparr>) s2
                                         \<lparr>log := log s @ pre @ upds @ post\<rparr>)))
         \<and> (TYPE' (cells s c) \<noteq> T STATIC \<longrightarrow>
               set_value upd c (VALUE (cells s c)) s =
                 Normal () (upd_cell c (\<lambda>d. d\<lparr>EXP := None\<rparr>) s))"
proof -
  have A: "update (Suc n) c False s = Normal () (release c (s2\<lparr>log := log s @ pre @ post\<rparr>))"
    if "v = VALUE (cells s c)"
    by (rule update_unchanged_users [OF ty pre post ev that])
  have B0: "update (Suc n) c True s =
               bind (call_listeners (update n) n Updates c
                       (upd_cell c (\<lambda>d. d\<lparr>VALUE := v\<rparr>) (s2\<lparr>log := log s @ pre\<rparr>)))
                 (\<lambda>_ s5. bind (run_group (update n) Postupdates c s5)
                            (\<lambda>_ s6. Normal () (release c s6)))"
    by (rule update_dispatch_users [OF ty pre ev]) simp
  have B: "update (Suc n) c True s =
             Normal () (release c (upd_cell c (\<lambda>d. d\<lparr>VALUE := v\<rparr>) s2
                                     \<lparr>log := log s @ pre @ upds @ post\<rparr>))"
    if "group_tags (updates (cells s c)) = Some upds" "queue s Updates = None"
      "\<not> inProgress s Updates" "length upds \<le> n"
    by (rule update_changed_users [OF ty pre that(1) post that(2,3) ev that(4)]) simp
  have C: "set_value upd c (VALUE (cells s c)) s =
             Normal () (upd_cell c (\<lambda>d. d\<lparr>EXP := None\<rparr>) s)"
    if "TYPE' (cells s c) \<noteq> T STATIC"
    using that by (simp add: set_value_def)
  show ?thesis using A B0 B C by blast
qed

theorem C2_force_semantics_witness:
  "(case watched_cells 3 of
      Normal (a, b) s \<Rightarrow>
        TYPE' (cells s b) \<noteq> T INHERIT
        \<and> group_tags (preupdates (cells s b)) = Some [''b pre-update'']
        \<and> group_tags (postupdates (cells s b)) = Some [''b post-update'']
        \<and> group_tags (updates (cells s b)) = Some [''b update'']
        \<and> queue s Updates = None \<and> \<not> inProgress s Updates
        \<and> (\<exists>s2. evaluate b (VALUE (cells s b)) s = Normal (Num 1) s2
               \<and> Num 1 = VALUE (cells s b)
               \<and> update (Suc (Suc 0)) b False s =
                     Normal () (release b (s2\<lparr>log := log s @ [''b pre-update''] @ [''b post-update'']\<rparr>))
               \<and> update (Suc (Suc 0)) b True s =
                     Normal () (release b (upd_cell b (\<lambda>d. d\<lparr>VALUE := Num 1\<rparr>) s2
                       \<lparr>log := log s @ [''b pre-update''] @ [''b update''] @ [''b post-update'']\<rparr>)))
        \<and> updates (cells s a) = Some [Handle 0]
        \<and> TYPE' (cells s a) \<noteq> T INHERIT
        \<and> group_tags (preupdates (cells s a)) = Some []
        \<and> group_tags (postupdates (cells s a)) = Some []
        \<and> evaluate a (VALUE (cells s a)) s = Normal (VALUE (cells s a)) s
        \<and> update (Suc (Suc 0)) a False s = Normal () (release a (s\<lparr>log := log s @ [] @ []\<rparr>))
        \<and> set_value (update (Suc 0)) a (VALUE (cells s a)) s =
              Normal () (upd_cell a (\<lambda>d. d\<lparr>EXP := None\<rparr>) s)
    | Threw e s \<Rightarrow> False
    | OutOfFuel \<Rightarrow> False)"
proof -
  have "\<exists>s. watched_cells 3 = Normal (0, Suc 0) s
          \<and> TYPE' (cells s (Suc 0)) \<noteq> T INHERIT
          \<and> group_tags (preupdates (cells s (Suc 0))) = Some [''b pre-update'']
          \<and> group_tags (postupdates (cells s (Suc 0))) = Some [''b post-update'']
          \<and> group_tags (updates (cells s (Suc 0))) = Some [''b update'']
          \<and> queue s Updates = None \<and> \<not> inProgress s Updates
          \<and> VALUE (cells s (Suc 0)) = Num 1
          \<and> (\<exists>s2. evaluate (Suc 0) (VALUE (cells s (Suc 0))) s = Normal (Num 1) s2)
          \<and> updates (cells s 0) = Some [Handle 0]
          \<and> TYPE' (cells s 0) \<noteq> T INHERIT \<and> TYPE' (cells s 0) \<noteq> T STATIC
          \<and> group_tags (preupdates (cells s 0)) = Some []
          \<and> group_tags (postupdates (cells s 0)) = Some []
          \<and> evaluate 0 (VALUE (cells s 0)) s = Normal (VALUE (cells s 0)) s"
    by (simp add: watched_cells_def group_tags_def core_defs)
  then obtain s s2 where s: "watched_cells 3 = Normal (0, Suc 0) s"
    and b: "TYPE' (cells s (Suc 0)) \<noteq> T INHERIT"
      "group_tags (preupdates (cells s (Suc 0))) = Some [''b pre-update'']"
      "group_tags (postupdates (cells s (Suc 0))) = Some [''b post-update'']"
    and bu: "group_tags (updates (cells s (Suc 0))) = Some [''b update'']"
      "queue s Updates = None" "\<not> inProgress s Updates"
    and v: "VALUE (cells s (Suc 0)) = Num 1"
    and ev: "evaluate (Suc 0) (VALUE (cells s (Suc 0))) s = Normal (Num 1) s2"
    and au: "updates (cells s 0) = Some [Handle 0]"
    and a: "TYPE' (cells s 0) \<noteq> T INHERIT"
      "group_tags (preupdates (cells s 0)) = Some []"
      "group_tags (postupdates (cells s 0)) = Some []"
      "evaluate 0 (VALUE (cells s 0)) s = Normal (VALUE (cells s 0)) s"
    and ns: "TYPE' (cells s 0) \<noteq> T STATIC"
    by blast
  note at_b = C2_force_semantics [OF b ev, of "Suc 0" "[''b update'']" "update (Suc 0)"]
  note at_a = C2_force_semantics [OF a, of "Suc 0" "[]" "update (Suc 0)"]
  have len: "length [''b update''] \<le> Suc 0" by simp
  have b1: "update (Suc (Suc 0)) (Suc 0) False s =
              Normal () (release (Suc 0) (s2\<lparr>log := log s @ [''b pre-update''] @ [''b post-update'']\<rparr>))"
    using at_b v [symmetric] by blast
  have b2: "update (Suc (Suc 0)) (Suc 0) True s =
              Normal () (release (Suc 0) (upd_cell (Suc 0) (\<lambda>d. d\<lparr>VALUE := Num 1\<rparr>) s2
                \<lparr>log := log s @ [''b pre-update''] @ [''b update''] @ [''b post-update'']\<rparr>))"
    using at_b bu len by blast
  have a1: "update (Suc (Suc 0)) 0 False s = Normal () (release 0 (s\<lparr>log := log s @ [] @ []\<rparr>))"
    using at_a by blast
  have a2: "set_value (update (Suc 0)) 0 (VALUE (cells s 0)) s =
              Normal () (upd_cell 0 (\<lambda>d. d\<lparr>EXP := None\<rparr>) s)"
    using at_a ns by blast
  show ?thesis using b1 b2 a1 a2 b bu v ev au a
    by (simp add: s del: update.simps)
qed

text \<open>
  C3: on \<^verbatim>\<open>new Dynx(1)\<close>, attaching \<^verbatim>\<open>x => x + 1\<close> and then \<^verbatim>\<open>x => x * 10\<close> should give
  \<open>(1 + 1) * 10 = 20\<close>, and detaching the second filter should give \<open>1 + 1 = 2\<close>. The code
  starts each recomputation from the stored, already filtered value: it gives \<open>30\<close> and
  then \<open>31\<close>.
\<close>

theorem C3_filters_reapplied_to_filtered_value:
  "(case new_Dynx (Num 1) DYNAMIC init_state of
      (c, s) \<Rightarrow>
        value_of (bind (onFilterSub (update 2) c plus_one False s)
                   (\<lambda>_ s1. bind (onFilterSub (update 2) c times_ten False s1)
                      (\<lambda>_. Normal c))) = Some (Num 30)
        \<and> value_of (bind (onFilterSub (update 2) c plus_one False s)
                      (\<lambda>_ s1. bind (onFilterSub (update 2) c times_ten False s1)
                         (\<lambda>_ s2. bind (onFilterUnsub (update 2) c times_ten s2)
                            (\<lambda>_. Normal c)))) = Some (Num 31))"
  by (simp add: value_of_def plus_one_def times_ten_def onFilterSub_def onFilterUnsub_def
      add_filter_def remove_filter_def core_defs)

text \<open>
  C4, as stated: a cell of type \<open>INVALID\<close> reads as the invalid sentinel. It does not: the
  cell \<^verbatim>\<open>new Dynx(5, DynxType.INVALID)\<close> reads as 5, its stored value.
\<close>

theorem C4_invalid_reads_stored_value:
  "(case new_Dynx (Num 5) INVALID init_state of
      (c, s) \<Rightarrow> TYPE' (cells s c) = T INVALID \<and> fst (get_value c s) = Num 5
                \<and> fst (get_value c s) \<noteq> INVALID_sentinel)"
  by (simp add: INVALID_sentinel_def core_defs)

text \<open>
  C4, amended: reading the value of a cell returns its stored value, whatever the type of
  the cell, \<open>INVALID\<close> included.
\<close>

theorem C4_read_returns_stored_value:
  "fst (get_value c s) = VALUE (cells s c)"
  by (rule get_value_fst)

text \<open>
  C5. Exception atomicity: when the pre-update listeners of a cell have run and the
  evaluation of its expression or of a filter throws, \<open>update\<close> throws the same exception
  to its caller and the stored value of the cell is the one it had when the evaluation
  began.
\<close>

theorem C5_exception_leaves_value:
  assumes "run_group (update n) Preupdates c s = Normal () s1"
    and "evaluate c (VALUE (cells s1 c)) (reset_pending c s1) = Threw e s2"
  shows "update (Suc n) c force s = Threw e s2 \<and> VALUE (cells s2 c) = VALUE (cells s1 c)"
proof -
  have "quiet (reset_pending c s1) s2"
    by (rule after_ThrewD [OF quiet_evaluate assms(2)])
  then have "VALUE (cells s2 c) = VALUE (cells (reset_pending c s1) c)"
    by (simp add: quiet_def)
  then have "VALUE (cells s2 c) = VALUE (cells s1 c)"
    by (simp add: reset_pending_def upd_cell_def)
  then show ?thesis using assms by (simp add: update_body_def bind_def)
qed

theorem C5_exception_leaves_value_witness:
  "(case new_Dynx (Num 1) DYNAMIC init_state of
      (c, s) \<Rightarrow>
        run_group (update 1) Preupdates c (add_filter failing_filter False c s) =
          Normal () (add_filter failing_filter False c s)
        \<and> (\<exists>s2. evaluate c (Num 1) (reset_pending c (add_filter failing_filter False c s)) =
                   Threw (Error ''filter failed'') s2
               \<and> update (Suc 1) c True (add_filter failing_filter False c s) =
                     Threw (Error ''filter failed'') s2
               \<and> VALUE (cells s2 c) = Num 1))"
proof -
  define s1 where "s1 = add_filter failing_filter False 0 (snd (new_Dynx (Num 1) DYNAMIC init_state))"
  have n: "new_Dynx (Num 1) DYNAMIC init_state = (0, snd (new_Dynx (Num 1) DYNAMIC init_state))"
    by (simp add: new_Dynx_def init_state_def)
  have pre: "run_group (update 1) Preupdates 0 s1 = Normal () s1"
    by (simp add: s1_def failing_filter_def add_filter_def core_defs)
  have v: "VALUE (cells s1 0) = Num 1"
    by (simp add: s1_def failing_filter_def add_filter_def core_defs)
  have "\<exists>s2. evaluate 0 (VALUE (cells s1 0)) (reset_pending 0 s1) = Threw (Error ''filter failed'') s2"
    by (simp add: s1_def failing_filter_def add_filter_def core_defs)
  then obtain s2 where ev: "evaluate 0 (VALUE (cells s1 0)) (reset_pending 0 s1) =
      Threw (Error ''filter failed'') s2" by blast
  from C5_exception_leaves_value [OF pre ev, of True] pre ev v
  have "run_group (update 1) Preupdates 0 s1 = Normal () s1
        \<and> (\<exists>s2. evaluate 0 (Num 1) (reset_pending 0 s1) = Threw (Error ''filter failed'') s2
               \<and> update (Suc 1) 0 True s1 = Threw (Error ''filter failed'') s2
               \<and> VALUE (cells s2 0) = Num 1)"
    by auto
  then show ?thesis by (subst n) (simp add: s1_def)
qed

text \<open>
  C5, through a cascade: when \<open>a\<close> is set to true, the expression of its dependent \<open>b\<close>
  throws; the exception reaches the caller of the assignment, \<open>b\<close> keeps its value and
  \<open>a\<close> has the new one.
\<close>

lemma exception_reaches_the_mutation:
  "(case guarded_cells 3 of
      Normal (a, b) s \<Rightarrow>
        VALUE (cells s b) = Num 0
        \<and> (case set_value (update 5) a (Bool True) s of
               Normal _ s' \<Rightarrow> False
             | Threw e s' \<Rightarrow>
                 e = Error ''boom'' \<and> VALUE (cells s' b) = Num 0 \<and> VALUE (cells s' a) = Bool True
             | OutOfFuel \<Rightarrow> False)
    | Threw e s \<Rightarrow> False
    | OutOfFuel \<Rightarrow> False)"
  by (simp add: guarded_cells_def core_defs)

text \<open>
  C6, as stated: after \<open>finalize\<close>, attaching a listener or a filter fails with a thrown
  error. It does not: on \<^verbatim>\<open>new Dynx(0)\<close> after \<^verbatim>\<open>finalize(1)\<close>, \<^verbatim>\<open>onUpdateSub\<close> writes a
  warning to the console and the listener is in the group, and \<^verbatim>\<open>onFilterSub\<close> returns.
\<close>

theorem C6_attach_after_finalize_returns:
  "(case new_Dynx (Num 0) DYNAMIC init_state of
      (c, s) \<Rightarrow>
        (case finalize (update 3) 3 c (Num 1) s of
           Normal _ s' \<Rightarrow>
             TYPE' (cells s' c) = T STATIC
             \<and> updates (cells (onUpdateSub c (User ''late'') False s') c) = Some [User ''late'']
             \<and> console (onUpdateSub c (User ''late'') False s') = [static_warning]
             \<and> (case onFilterSub (update 3) c plus_one False s' of
                    Normal _ s'' \<Rightarrow> True
                  | Threw e s'' \<Rightarrow> False
                  | OutOfFuel \<Rightarrow> False)
         | Threw e s' \<Rightarrow> False
         | OutOfFuel \<Rightarrow> False))"
  by (simp add: plus_one_def finalize_def onFilterSub_def add_filter_def core_defs)

text \<open>
  C6, amended. When \<open>finalize(v)\<close> returns on a cell that was not \<open>STATIC\<close> and had no
  filters, the cell is \<open>STATIC\<close> and reads \<open>v\<close>; every later assignment of a value, of an
  expression or of a type throws (the specification's \<open>FrozenMutationError\<close>) and leaves
  the state as it was, so the cell reads \<open>v\<close> after any number of them; attaching a
  listener does not throw: it writes a warning to the console, and the cell still reads
  \<open>v\<close>.
\<close>

theorem C6_finalize_terminal:
  assumes "TYPE' (cells s c) \<noteq> T STATIC" and "filters (cells s c) = None"
    and "finalize (update n) n c v s = Normal () s'"
  shows "TYPE' (cells s' c) = T STATIC \<and> fst (get_value c s') = v
         \<and> FrozenMutationError static_value_error \<and> FrozenMutationError static_type_error
         \<and> set_value upd c w s' = Threw static_value_error s'
         \<and> set_exp upd c e s' = Threw static_value_error s'
         \<and> set_type upd k c t s' = Threw static_type_error s'
         \<and> console (add_listener g l first c s') = console s' @ [static_warning]
         \<and> fst (get_value c (add_listener g l first c s')) = v"
proof -
  obtain s1 where sv: "set_value (update n) c v s = Normal () s1"
    and st: "set_type (update n) n c (T STATIC) s1 = Normal () s'"
    using assms(3) by (auto simp: finalize_def bind_def split: outcome.splits)
  have s1: "EXP (cells s1 c) = None \<and> filters (cells s1 c) = None \<and> VALUE (cells s1 c) = v"
    using set_value_constant [OF assms(1,2), of v n] sv by simp
  then have s': "TYPE' (cells s' c) = T STATIC \<and> VALUE (cells s' c) = v"
    using set_type_static [OF _ _ st] by simp
  have gv: "fst (get_value c s') = VALUE (cells s' c)"
    by (rule get_value_fst)
  have al: "VALUE (cells (add_listener g l first c s') c) = VALUE (cells s' c)"
    by (simp add: add_listener_def warn_static_def upd_cell_def)
  show ?thesis using s' gv al
    by (simp add: FrozenMutationError_def set_value_def set_exp_def set_type_def
        add_listener_def warn_static_def upd_cell_def get_value_fst)
qed

theorem C6_finalize_terminal_witness:
  "(case listening_cell (Num 0) DYNAMIC of
      (c, s) \<Rightarrow>
        TYPE' (cells s c) \<noteq> T STATIC \<and> filters (cells s c) = None
        \<and> (\<exists>s'. finalize (update 3) 3 c (Num 1) s = Normal () s'
               \<and> TYPE' (cells s' c) = T STATIC \<and> fst (get_value c s') = Num 1
               \<and> set_value (update 3) c (Num 2) s' = Threw static_value_error s'
               \<and> set_exp (update 3) c (Const (Num 2)) s' = Threw static_value_error s'
               \<and> set_type (update 3) 3 c (T DYNAMIC) s' = Threw static_type_error s'
               \<and> console (add_listener Updates (User ''late'') False c s') =
                     console s' @ [static_warning]
               \<and> fst (get_value c (add_listener Updates (User ''late'') False c s')) = Num 1))"
proof -
  have "\<exists>s. listening_cell (Num 0) DYNAMIC = (0, s)
          \<and> TYPE' (cells s 0) \<noteq> T STATIC \<and> filters (cells s 0) = None
          \<and> (\<exists>s'. finalize (update 3) 3 0 (Num 1) s = Normal () s')"
    by (simp add: listening_cell_def finalize_def core_defs)
  then obtain s s' where s: "listening_cell (Num 0) DYNAMIC = (0, s)"
    and h: "TYPE' (cells s 0) \<noteq> T STATIC" "filters (cells s 0) = None"
      "finalize (update 3) 3 0 (Num 1) s = Normal () s'"
    by blast
  from C6_finalize_terminal [OF h, of "update 3" "Num 2" "Const (Num 2)" 3 "T DYNAMIC"
      Updates "User ''late''" False] h
  show ?thesis by (simp add: s)
qed

text \<open>
  C7: a \<open>STATIC\<close> cell should retain no expression, no filters and no listener group. On
  \<^verbatim>\<open>new Dynx(0)\<close> with one callback in each of the three update groups, \<^verbatim>\<open>finalize(1)\<close>
  makes the cell \<open>STATIC\<close> and the three groups are still there: only \<open>update\<close> releases
  them, and \<open>finalize\<close> sets the type after its \<open>update\<close> has run.
\<close>

theorem C7_finalize_keeps_listeners:
  "(case listening_cell (Num 0) DYNAMIC of
      (c, s) \<Rightarrow>
        (case finalize (update 3) 3 c (Num 1) s of
           Normal _ s' \<Rightarrow>
             TYPE' (cells s' c) = T STATIC
             \<and> preupdates (cells s' c) = Some [User ''pre-update'']
             \<and> updates (cells s' c) = Some [User ''update'']
             \<and> postupdates (cells s' c) = Some [User ''post-update'']
         | Threw e s' \<Rightarrow> False
         | OutOfFuel \<Rightarrow> False))"
  by (simp add: listening_cell_def finalize_def core_defs)

text \<open>
  What the code does release: when \<open>update\<close> returns on a cell that is then \<open>STATIC\<close>, the
  cell has no expression, no filters and no pre-update, update or post-update group.
\<close>

lemma update_releases_static:
  assumes "update (Suc n) c force s = Normal () s'" and "TYPE' (cells s' c) = T STATIC"
  shows "EXP (cells s' c) = None \<and> filters (cells s' c) = None \<and> preupdates (cells s' c) = None
         \<and> updates (cells s' c) = None \<and> postupdates (cells s' c) = None"
proof -
  from assms(1) obtain s6 where s': "s' = release c s6"
    by (auto simp: update_body_def bind_def split: outcome.splits)
  show ?thesis using assms(2) unfolding s'
    by (cases "TYPE' (cells s6 c) = T STATIC") (simp_all add: release_def upd_cell_def)
qed

text \<open>
  C8, as stated: while a cell is \<open>INVALID\<close> its recomputation is suspended and resumes
  only when the type is changed away. It is not suspended: \<^verbatim>\<open>update\<close> does not look at the
  type. With \<open>b = Dynx(() => a.value)\<close> of type \<open>INVALID\<close>, the assignment \<^verbatim>\<open>a.value = 2\<close>
  makes \<open>b\<close> recompute to 2 and run its listeners (the update listeners last, as they are
  queued behind the dispatch of \<open>a\<close>), and so does a direct \<^verbatim>\<open>b.update(true)\<close>; \<open>b\<close> stays
  \<open>INVALID\<close>.
\<close>

theorem C8_cascade_recomputes_invalid_cell:
  "(case invalid_dependent 3 of
      Normal (a, b) s \<Rightarrow>
        TYPE' (cells s b) = T INVALID \<and> VALUE (cells s b) = Num 1 \<and> log s = []
        \<and> (case set_value (update 5) a (Num 2) s of
               Normal _ s' \<Rightarrow>
                 TYPE' (cells s' b) = T INVALID \<and> VALUE (cells s' b) = Num 2
                 \<and> log s' = [''b pre-update'', ''b post-update'', ''b update'']
             | Threw e s' \<Rightarrow> False
             | OutOfFuel \<Rightarrow> False)
        \<and> (case update 5 b True s of
               Normal _ s' \<Rightarrow>
                 TYPE' (cells s' b) = T INVALID
                 \<and> log s' = [''b pre-update'', ''b update'', ''b post-update'']
             | Threw e s' \<Rightarrow> False
             | OutOfFuel \<Rightarrow> False)
    | Threw e s \<Rightarrow> False
    | OutOfFuel \<Rightarrow> False)"
  by (simp add: invalid_dependent_def watched_cells_def core_defs)

text \<open>
  C8, amended. On a cell of type \<open>INVALID\<close>, the assignment of a value or of an expression
  stores it and does nothing else (whatever \<open>update\<close> would do, it is not called), and
  setting the type to \<open>INVALID\<close> again does nothing. Setting it to any other type stores
  the type, calls \<open>update(true)\<close> and then the type-change listeners: for a type other
  than \<open>INHERIT\<close> and listeners that are user callbacks, outside any dispatch, the
  pre-update, update and post-update listeners run, the value becomes the one the
  recomputation returns, and the type-change listeners run last. \<^verbatim>\<open>update\<close> itself is not
  suspended: called on the \<open>INVALID\<close> cell, with force or with a recomputed value that
  differs from the stored one, it stores the recomputed value and runs the three groups.
\<close>

theorem C8_suspension_while_invalid:
  assumes inv: "TYPE' (cells s c) = T INVALID"
  shows "set_value upd c v s = Normal () (upd_cell c (\<lambda>d. d\<lparr>EXP := None, VALUE := v\<rparr>) s)
         \<and> set_exp upd c e s = Normal () (upd_cell c (\<lambda>d. d\<lparr>EXP := Some e\<rparr>) s)
         \<and> set_type upd k c (T INVALID) s = Normal () s
         \<and> (t \<noteq> T INVALID \<longrightarrow>
              set_type upd k c t s =
                bind (upd c True (upd_cell c (\<lambda>d. d\<lparr>TYPE' := t\<rparr>) s))
                  (\<lambda>_. call_listeners upd k TypeChanges c))
         \<and> (t \<noteq> T INVALID \<and> t \<noteq> T INHERIT
              \<and> evaluate c (VALUE (cells s c)) (upd_cell c (\<lambda>d. d\<lparr>TYPE' := t\<rparr>) s) = Normal w s2
              \<and> group_tags (preupdates (cells s c)) = Some pre
              \<and> group_tags (updates (cells s c)) = Some upds
              \<and> group_tags (postupdates (cells s c)) = Some post
              \<and> group_tags (typeChanges (cells s c)) = Some tcs
              \<and> queue s Updates = None \<and> \<not> inProgress s Updates
              \<and> queue s TypeChanges = None \<and> \<not> inProgress s TypeChanges
              \<and> length upds \<le> n \<and> length tcs \<le> k \<longrightarrow>
              set_type (update (Suc n)) k c t s =
                Normal () (release c (upd_cell c (\<lambda>d. d\<lparr>VALUE := w\<rparr>) s2
                                        \<lparr>log := log s @ pre @ upds @ post @ tcs\<rparr>)))
         \<and> (evaluate c (VALUE (cells s c)) s = Normal w' s2'
              \<and> (w' \<noteq> VALUE (cells s c) \<or> force)
              \<and> group_tags (preupdates (cells s c)) = Some pre
              \<and> group_tags (updates (cells s c)) = Some upds
              \<and> group_tags (postupdates (cells s c)) = Some post
              \<and> queue s Updates = None \<and> \<not> inProgress s Updates
              \<and> length upds \<le> n \<longrightarrow>
              update (Suc n) c force s =
                Normal () (release c (upd_cell c (\<lambda>d. d\<lparr>VALUE := w'\<rparr>) s2'
                                        \<lparr>log := log s @ pre @ upds @ post\<rparr>)))"
proof -
  have eq: "upd_cell c (\<lambda>d. d\<lparr>EXP := None\<rparr>) s = upd_cell c (\<lambda>d. d\<lparr>EXP := None, VALUE := v\<rparr>) s"
    if "VALUE (cells s c) = v"
    using that by (cases "cells s c") (auto simp: upd_cell_def)
  have setters: "set_value upd c v s = Normal () (upd_cell c (\<lambda>d. d\<lparr>EXP := None, VALUE := v\<rparr>) s)"
    "set_exp upd c e s = Normal () (upd_cell c (\<lambda>d. d\<lparr>EXP := Some e\<rparr>) s)"
    "set_type upd k c (T INVALID) s = Normal () s"
    using inv eq by (auto simp: set_value_def set_exp_def set_type_def strict_neq_def)
  have away: "set_type upd k c t s =
                bind (upd c True (upd_cell c (\<lambda>d. d\<lparr>TYPE' := t\<rparr>) s))
                  (\<lambda>_. call_listeners upd k TypeChanges c)"
    if "t \<noteq> T INVALID" for upd
    using inv that by (auto simp: set_type_def strict_neq_def)
  let ?s0 = "upd_cell c (\<lambda>d. d\<lparr>TYPE' := t\<rparr>) s"
  let ?X = "release c (upd_cell c (\<lambda>d. d\<lparr>VALUE := w\<rparr>) s2\<lparr>log := log s @ pre @ upds @ post\<rparr>)"
  have forced: "set_type (update (Suc n)) k c t s =
                Normal () (release c (upd_cell c (\<lambda>d. d\<lparr>VALUE := w\<rparr>) s2
                                        \<lparr>log := log s @ pre @ upds @ post @ tcs\<rparr>))"
    if h: "t \<noteq> T INVALID" "t \<noteq> T INHERIT"
      "evaluate c (VALUE (cells s c)) ?s0 = Normal w s2"
      "group_tags (preupdates (cells s c)) = Some pre"
      "group_tags (updates (cells s c)) = Some upds"
      "group_tags (postupdates (cells s c)) = Some post"
      "group_tags (typeChanges (cells s c)) = Some tcs"
      "queue s Updates = None" "\<not> inProgress s Updates"
      "queue s TypeChanges = None" "\<not> inProgress s TypeChanges"
      "length upds \<le> n" "length tcs \<le> k"
  proof -
    have q: "quiet ?s0 s2"
      by (rule after_NormalD [OF quiet_evaluate h(3)])
    have ev0: "evaluate c (VALUE (cells ?s0 c)) ?s0 = Normal w s2"
      using h(3) by (simp add: upd_cell_def)
    have u: "update (Suc n) c True ?s0 = Normal () ?X"
      using update_changed_users [of ?s0 c pre upds post w s2 n True, OF _ _ _ _ _ _ ev0]
        h by (simp add: upd_cell_def)
    have tc: "call_listeners (update (Suc n)) k TypeChanges c ?X = Normal () (?X\<lparr>log := log ?X @ tcs\<rparr>)"
      by (rule call_listeners_users)
        (use q h in \<open>simp_all add: quiet_def upd_cell_def release_def\<close>)
    have lg: "?X\<lparr>log := log ?X @ tcs\<rparr> =
              release c (upd_cell c (\<lambda>d. d\<lparr>VALUE := w\<rparr>) s2\<lparr>log := log s @ pre @ upds @ post @ tcs\<rparr>)"
      by (simp add: release_log release_def upd_cell_def)
    show ?thesis unfolding away [OF h(1)] u using tc lg by (simp add: bind_def)
  qed
  have direct: "update (Suc n) c force s =
                Normal () (release c (upd_cell c (\<lambda>d. d\<lparr>VALUE := w'\<rparr>) s2'
                                        \<lparr>log := log s @ pre @ upds @ post\<rparr>))"
    if "evaluate c (VALUE (cells s c)) s = Normal w' s2'"
      "w' \<noteq> VALUE (cells s c) \<or> force"
      "group_tags (preupdates (cells s c)) = Some pre"
      "group_tags (updates (cells s c)) = Some upds"
      "group_tags (postupdates (cells s c)) = Some post"
      "queue s Updates = None" "\<not> inProgress s Updates" "length upds \<le> n"
    by (rule update_changed_users [OF _ that(3,4,5,6,7,1,8,2)]) (simp add: inv)
  show ?thesis using setters away forced direct by blast
qed

theorem C8_suspension_while_invalid_witness:
  "(case pending_cell (Suc 0) of
      Normal c s \<Rightarrow>
        TYPE' (cells s c) = T INVALID \<and> VALUE (cells s c) = Num 1
        \<and> EXP (cells s c) = Some (Const (Num 7)) \<and> log s = []
        \<and> set_value (update 2) c (Num 2) s =
              Normal () (upd_cell c (\<lambda>d. d\<lparr>EXP := None, VALUE := Num 2\<rparr>) s)
        \<and> set_exp (update 2) c (Const (Num 9)) s =
              Normal () (upd_cell c (\<lambda>d. d\<lparr>EXP := Some (Const (Num 9))\<rparr>) s)
        \<and> set_type (update 2) (Suc 0) c (T INVALID) s = Normal () s
        \<and> (\<exists>s2. evaluate c (VALUE (cells s c)) (upd_cell c (\<lambda>d. d\<lparr>TYPE' := T DYNAMIC\<rparr>) s) =
                   Normal (Num 7) s2
               \<and> set_type (update (Suc (Suc 0))) (Suc 0) c (T DYNAMIC) s =
                     Normal () (release c (upd_cell c (\<lambda>d. d\<lparr>VALUE := Num 7\<rparr>) s2
                       \<lparr>log := log s @ [''pre-update''] @ [''update''] @ [''post-update'']
                                @ [''type-change'']\<rparr>)))
        \<and> (\<exists>s2. evaluate c (VALUE (cells s c)) s = Normal (Num 7) s2
               \<and> update (Suc (Suc 0)) c False s =
                     Normal () (release c (upd_cell c (\<lambda>d. d\<lparr>VALUE := Num 7\<rparr>) s2
                       \<lparr>log := log s @ [''pre-update''] @ [''update''] @ [''post-update'']\<rparr>)))
    | Threw e s \<Rightarrow> False
    | OutOfFuel \<Rightarrow> False)"
proof -
  have "\<exists>s. pending_cell (Suc 0) = Normal 0 s
          \<and> TYPE' (cells s 0) = T INVALID \<and> VALUE (cells s 0) = Num 1
          \<and> EXP (cells s 0) = Some (Const (Num 7)) \<and> log s = []
          \<and> group_tags (preupdates (cells s 0)) = Some [''pre-update'']
          \<and> group_tags (updates (cells s 0)) = Some [''update'']
          \<and> group_tags (postupdates (cells s 0)) = Some [''post-update'']
          \<and> group_tags (typeChanges (cells s 0)) = Some [''type-change'']
          \<and> queue s Updates = None \<and> \<not> inProgress s Updates
          \<and> queue s TypeChanges = None \<and> \<not> inProgress s TypeChanges
          \<and> (\<exists>s2. evaluate 0 (VALUE (cells s 0)) (upd_cell 0 (\<lambda>d. d\<lparr>TYPE' := T DYNAMIC\<rparr>) s) =
                   Normal (Num 7) s2)
          \<and> (\<exists>s2. evaluate 0 (VALUE (cells s 0)) s = Normal (Num 7) s2)"
    by (simp add: pending_cell_def listening_cell_def onTypeChangeSub_def group_tags_def core_defs)
  then obtain s s2 s2' where s: "pending_cell (Suc 0) = Normal 0 s"
    and inv: "TYPE' (cells s 0) = T INVALID"
    and f: "VALUE (cells s 0) = Num 1" "EXP (cells s 0) = Some (Const (Num 7))" "log s = []"
    and g: "group_tags (preupdates (cells s 0)) = Some [''pre-update'']"
      "group_tags (updates (cells s 0)) = Some [''update'']"
      "group_tags (postupdates (cells s 0)) = Some [''post-update'']"
      "group_tags (typeChanges (cells s 0)) = Some [''type-change'']"
      "queue s Updates = None" "\<not> inProgress s Updates"
      "queue s TypeChanges = None" "\<not> inProgress s TypeChanges"
    and ev: "evaluate 0 (VALUE (cells s 0)) (upd_cell 0 (\<lambda>d. d\<lparr>TYPE' := T DYNAMIC\<rparr>) s) =
               Normal (Num 7) s2"
    and ev': "evaluate 0 (VALUE (cells s 0)) s = Normal (Num 7) s2'"
    by blast
  note at_c = C8_suspension_while_invalid [OF inv, of "update 2" "Num 2" "Const (Num 9)" "Suc 0"
      "T DYNAMIC" "Num 7" s2 "[''pre-update'']" "[''update'']" "[''post-update'']"
      "[''type-change'']" "Suc 0" "Num 7" s2' False]
  have c1: "set_value (update 2) 0 (Num 2) s =
              Normal () (upd_cell 0 (\<lambda>d. d\<lparr>EXP := None, VALUE := Num 2\<rparr>) s)"
    and c2: "set_exp (update 2) 0 (Const (Num 9)) s =
              Normal () (upd_cell 0 (\<lambda>d. d\<lparr>EXP := Some (Const (Num 9))\<rparr>) s)"
    and c3: "set_type (update 2) (Suc 0) 0 (T INVALID) s = Normal () s"
    using at_c by blast+
  have c4: "set_type (update (Suc (Suc 0))) (Suc 0) 0 (T DYNAMIC) s =
              Normal () (release 0 (upd_cell 0 (\<lambda>d. d\<lparr>VALUE := Num 7\<rparr>) s2
                \<lparr>log := log s @ [''pre-update''] @ [''update''] @ [''post-update'']
                         @ [''type-change'']\<rparr>))"
    using at_c g ev by (simp del: update.simps)
  have c5: "update (Suc (Suc 0)) 0 False s =
              Normal () (release 0 (upd_cell 0 (\<lambda>d. d\<lparr>VALUE := Num 7\<rparr>) s2'
                \<lparr>log := log s @ [''pre-update''] @ [''update''] @ [''post-update'']\<rparr>))"
    using at_c g ev' f(1) by (simp del: update.simps)
  show ?thesis using c1 c2 c3 c4 c5 inv f ev ev'
    by (simp add: s del: update.simps)
qed

text \<open>
  C9: \<open>else\<close> on a \<open>STATIC\<close> conditional should return a new conditional that carries the
  new else value. Over the \<open>STATIC\<close> parent \<^verbatim>\<open>new Dynx(5, DynxType.STATIC)\<close>,
  \<^verbatim>\<open>p.if(x => x > 10, 1).else(2)\<close> should read 2. The new cell is made from the captured
  \<^verbatim>\<open>_elseThen\<close>, not from \<^verbatim>\<open>this._elseThen\<close>: it has no else value and reads
  \<^verbatim>\<open>undefined\<close>, and the value 2 was stored on the old cell. The sibling \<open>if\<close> does carry its
  new entry: \<^verbatim>\<open>p.if(x => x > 10, 1).if(x => true, 3)\<close> reads 3.
\<close>

theorem C9_else_on_static_loses_value:
  "(case new_Dynx (Num 5) STATIC init_state of
      (p, s) \<Rightarrow>
        (case Dynx_if (update 3) 3 p above_ten (Num 1) s of
           Normal c1 s1 \<Rightarrow>
             TYPE' (cells s1 c1) = T STATIC
             \<and> (case Dynx_else (update 3) 3 c1 (Num 2) s1 of
                    Normal c2 s2 \<Rightarrow>
                      c2 \<noteq> c1 \<and> VALUE (cells s2 c2) = Undefined
                      \<and> elseThen (cells s2 c2) = Undefined \<and> elseThen (cells s2 c1) = Num 2
                      \<and> VALUE (cells s2 c1) = VALUE (cells s1 c1)
                  | Threw e s2 \<Rightarrow> False
                  | OutOfFuel \<Rightarrow> False)
             \<and> value_of (Dynx_if (update 3) 3 c1 (\<lambda>v. True) (Num 3) s1) = Some (Num 3)
         | Threw e s1 \<Rightarrow> False
         | OutOfFuel \<Rightarrow> False))"
  by (simp add: above_ten_def value_of_def createBasicCond_def cond_if_def cond_else_def
      Dynx_if_def Dynx_else_def new_array_def core_defs)



end
